theory Spec2Isabelle
  imports Main
begin

section \<open>Python values used by live\_transcription.py\<close>

text \<open>
  A Python \<open>str\<close> is a sequence of Unicode code points, so it is modelled as a list of
  natural numbers; \<open>str\<close> turns an ASCII literal into that representation.
\<close>

type_synonym pystr = "nat list"

definition str :: "string \<Rightarrow> pystr" where
  "str cs = map (of_char :: char \<Rightarrow> nat) cs"

text \<open>The code points that \<open>str.strip()\<close> removes (CPython's whitespace table).\<close>

definition isspace :: "nat \<Rightarrow> bool" where
  "isspace c \<longleftrightarrow>
     (9 \<le> c \<and> c \<le> 13) \<or> (28 \<le> c \<and> c \<le> 32) \<or> c = 133 \<or> c = 160 \<or> c = 5760 \<or>
     (8192 \<le> c \<and> c \<le> 8202) \<or> c = 8232 \<or> c = 8233 \<or> c = 8239 \<or> c = 8287 \<or> c = 12288"

definition strip :: "pystr \<Rightarrow> pystr" where
  "strip t = rev (dropWhile isspace (rev (dropWhile isspace t)))"

text \<open>
  Exceptions. \<open>except Exception\<close> catches the first constructor only;
  \<open>KeyboardInterrupt\<close> and the other direct subclasses of \<open>BaseException\<close> pass it.
\<close>

datatype exn = Exception pystr | KeyboardInterrupt | BaseException pystr

fun is_Exception :: "exn \<Rightarrow> bool" where
  "is_Exception (Exception m) = True"
| "is_Exception KeyboardInterrupt = False"
| "is_Exception (BaseException m) = False"

fun exn_str :: "exn \<Rightarrow> pystr" where
  "exn_str (Exception m) = m"
| "exn_str KeyboardInterrupt = []"
| "exn_str (BaseException m) = m"

text \<open>\<open>datetime.now()\<close> is an input of the model; \<open>strftime\<close> is written out.\<close>

record datetime =
  year :: nat
  month :: nat
  day :: nat
  hour :: nat
  minute :: nat
  second :: nat

definition digit :: "nat \<Rightarrow> nat" where
  "digit n = 48 + n mod 10"

definition pad2 :: "nat \<Rightarrow> pystr" where
  "pad2 n = [digit (n div 10), digit n]"

definition pad4 :: "nat \<Rightarrow> pystr" where
  "pad4 n = [digit (n div 1000), digit (n div 100), digit (n div 10), digit n]"

definition strftime_HMS :: "datetime \<Rightarrow> pystr" where
  \<comment> \<open>\<open>strftime("%H:%M:%S")\<close>\<close>
  "strftime_HMS t = pad2 (hour t) @ str '':'' @ pad2 (minute t) @ str '':'' @ pad2 (second t)"

definition strftime_compact :: "datetime \<Rightarrow> pystr" where
  \<comment> \<open>\<open>strftime("%Y%m%d_%H%M%S")\<close>\<close>
  "strftime_compact t =
     pad4 (year t) @ pad2 (month t) @ pad2 (day t) @ str ''_'' @
     pad2 (hour t) @ pad2 (minute t) @ pad2 (second t)"

definition strftime_long :: "datetime \<Rightarrow> pystr" where
  \<comment> \<open>\<open>strftime('%Y-%m-%d %H:%M:%S')\<close>\<close>
  "strftime_long t =
     pad4 (year t) @ str ''-'' @ pad2 (month t) @ str ''-'' @ pad2 (day t) @ str '' '' @
     pad2 (hour t) @ str '':'' @ pad2 (minute t) @ str '':'' @ pad2 (second t)"

text \<open>\<open>str(n)\<close> of a non-negative \<open>int\<close>.\<close>

fun str_nat :: "nat \<Rightarrow> pystr" where
  "str_nat n = (if n < 10 then [48 + n] else str_nat (n div 10) @ [48 + n mod 10])"

declare str_nat.simps [simp del]

text \<open>
  A Python \<open>float\<close> is not computed with anywhere in the program: \<open>chunk_duration\<close> is
  multiplied once and printed once. It is carried as a non-negative fraction together
  with the text \<open>str()\<close> gives for it.
\<close>

record pyfloat =
  numer :: nat
  denom :: nat
  shown :: pystr

definition one_second :: pyfloat where
  "one_second = \<lparr>numer = 1, denom = 1, shown = str ''1.0''\<rparr>"

subsection \<open>numpy buffers and the memory they live in\<close>

text \<open>
  A buffer is a one-dimensional array of samples or a two-dimensional array given by its
  rows (one row per audio frame, one entry per channel). The sample type is left open:
  the program only moves samples (\<open>astype(np.float32)\<close> on a stream opened with
  \<open>dtype=np.float32\<close> keeps every sample).
\<close>

datatype 'a ndarray = Arr1 "'a list" | Arr2 "'a list list"

fun ndim :: "'a ndarray \<Rightarrow> nat" where
  "ndim (Arr1 xs) = 1"
| "ndim (Arr2 rows) = 2"

text \<open>
  Arrays are objects in memory. The audio subsystem owns the buffers \<open>Hw k\<close> and refills
  them; \<open>Obj n\<close> are the arrays the Python process allocates. \<open>indata[:, 0]\<close> is a view:
  it shares the memory of \<open>indata\<close>; \<open>copy()\<close> allocates a new array.
\<close>

datatype addr = Hw nat | Obj nat

datatype view = Whole addr | Column0 addr

definition index_error :: exn where
  "index_error = Exception (str ''index 0 is out of bounds for axis 1 with size 0'')"

fun has_column0 :: "'a ndarray \<Rightarrow> bool" where
  "has_column0 (Arr1 xs) = False"
| "has_column0 (Arr2 rows) = ([] \<notin> set rows)"

text \<open>
  The samples of channel 0. Only two-dimensional arrays are indexed with \<open>[:, 0]\<close>;
  an array that has no entry in some row has no column 0, and the indexing raises.
\<close>

fun column0 :: "'a ndarray \<Rightarrow> 'a ndarray" where
  "column0 (Arr2 rows) = Arr1 (map hd rows)"
| "column0 (Arr1 xs) = Arr1 xs"

fun read_view :: "(addr \<Rightarrow> 'a ndarray) \<Rightarrow> view \<Rightarrow> 'a ndarray" where
  "read_view m (Whole a) = m a"
| "read_view m (Column0 a) = column0 (m a)"

section \<open>The state of the process\<close>

datatype printed = Print pystr | Screen "pystr list"

record stream_config =
  context_size :: "nat \<times> nat"
  depth :: nat
  keep_original_attention :: bool

datatype session_event = Acquire stream_config | Release

text \<open>
  What lies outside the \<open>LiveTranscriber\<close> object: the console (one entry per
  \<open>print\<close> call, one \<open>Screen\<close> entry per call of \<open>display_transcription\<close>), the
  files, the array memory, the audio stream, and what the external recognizer has seen:
  the calls of \<open>from_pretrained\<close> and of \<open>sd.InputStream\<close>, the streaming sessions
  entered and left, and the frames handed to \<open>add_audio\<close>.
\<close>

record 'a world =
  console :: "printed list"
  files :: "pystr \<rightharpoonup> pystr"
  loads :: nat
  opens :: nat
  mem :: "addr \<Rightarrow> 'a ndarray"
  next_obj :: nat
  stream_active :: bool
  sessions :: "session_event list"
  submitted :: "'a ndarray list"

text \<open>
  The worker thread, by where it stands in \<open>transcription_worker\<close>: started (before the
  \<open>with\<close>), at the loop condition, inside \<open>audio_queue.get\<close>, returned, or ended by an
  exception.
\<close>

datatype worker_pc = Started | LoopHead | Waiting | Finished | Crashed exn

record 'a live_transcriber = "'a world" +
  model :: pystr
  sample_rate :: nat
  chunk_duration :: pyfloat
  chunk_size :: nat
  audio_queue :: "addr list"
  is_recording :: bool
  transcription_thread :: "worker_pc option"
  full_transcription :: "pystr list"
  current_text :: pystr

definition print :: "pystr \<Rightarrow> ('a, 'z) world_scheme \<Rightarrow> ('a, 'z) world_scheme" where
  "print t w = w\<lparr>console := console w @ [Print t]\<rparr>"

definition prints :: "pystr list \<Rightarrow> ('a, 'z) world_scheme \<Rightarrow> ('a, 'z) world_scheme" where
  "prints ts w = w\<lparr>console := console w @ map Print ts\<rparr>"

section \<open>LiveTranscriber\<close>

subsection \<open>\_\_init\_\_\<close>

text \<open>
  \<open>load\<close> is what \<open>from_pretrained\<close> does: \<open>Some e\<close> when it raises \<open>e\<close>.
\<close>

definition new_object :: "pystr \<Rightarrow> nat \<Rightarrow> pyfloat \<Rightarrow> 'a world \<Rightarrow> 'a live_transcriber" where
  \<comment> \<open>the assignments to \<open>self\<close>, in the world \<open>w\<close>\<close>
  "new_object model_name sr cd w =
     \<lparr>console = console w, files = files w, loads = loads w,
      opens = opens w, mem = mem w, next_obj = next_obj w,
      stream_active = stream_active w, sessions = sessions w,
      submitted = submitted w,
      model = model_name, sample_rate = sr, chunk_duration = cd,
      chunk_size = (sr * numer cd) div denom cd,
      audio_queue = [], is_recording = False, transcription_thread = None,
      full_transcription = [], current_text = []\<rparr>"

definition init ::
  "exn option \<Rightarrow> pystr \<Rightarrow> nat \<Rightarrow> pyfloat \<Rightarrow> 'a world \<Rightarrow> (exn \<times> 'a world) + 'a live_transcriber" where
  "init load model_name sr cd w =
     (let w1 = print (str ''Loading model: '' @ model_name) w;
          w2 = w1\<lparr>loads := Suc (loads w1)\<rparr>
      in case load of
           Some e \<Rightarrow> Inl (e, w2)
         | None \<Rightarrow> Inr (new_object model_name sr cd w2))"

subsection \<open>audio\_callback\<close>

text \<open>
  \<open>indata\<close> is the address of the buffer; \<open>status\<close> is \<open>Some t\<close> when flags are set and
  print as \<open>t\<close>. The arguments \<open>frames\<close> and \<open>time\<close> are not used by the code. The
  result is the exception raised, if any, and the state.
\<close>

definition np_copy :: "view \<Rightarrow> 'a live_transcriber \<Rightarrow> addr \<times> 'a live_transcriber" where
  "np_copy v s =
     (Obj (next_obj s),
      s\<lparr>mem := (mem s)(Obj (next_obj s) := read_view (mem s) v),
        next_obj := Suc (next_obj s)\<rparr>)"

definition queue_put :: "addr \<Rightarrow> 'a live_transcriber \<Rightarrow> 'a live_transcriber" where
  \<comment> \<open>\<open>queue.Queue()\<close> has no maximum size: \<open>put\<close> appends\<close>
  "queue_put a s = s\<lparr>audio_queue := audio_queue s @ [a]\<rparr>"

definition audio_callback ::
  "addr \<Rightarrow> pystr option \<Rightarrow> 'a live_transcriber \<Rightarrow> exn option \<times> 'a live_transcriber" where
  "audio_callback indata status s =
     (let s1 = (case status of Some t \<Rightarrow> print (str ''Audio status: '' @ t) s | None \<Rightarrow> s)
      in if ndim (mem s1 indata) > 1 \<and> \<not> has_column0 (mem s1 indata)
         then (Some index_error, s1)
         else
           let audio_chunk = (if ndim (mem s1 indata) > 1 then Column0 indata else Whole indata);
               (c, s2) = np_copy audio_chunk s1
           in (None, queue_put c s2))"

subsection \<open>display\_transcription\<close>

definition clear_screen :: pystr where
  "clear_screen = [27, 91, 50, 74, 27, 91, 72]"

definition display_transcription :: "datetime \<Rightarrow> 'a live_transcriber \<Rightarrow> 'a live_transcriber" where
  "display_transcription now s =
     (let timestamp = strftime_HMS now
      in s\<lparr>console := console s @ [Screen
           ([clear_screen,
             replicate 80 61,
             [127908] @ str '' LIVE LECTURE TRANSCRIPTION - '' @ timestamp,
             replicate 80 61,
             []] @
            (if strip (current_text s) \<noteq> []
             then [str ''Current transcription:'', replicate 40 45, current_text s, []]
             else [str ''Listening... (speak into your microphone)'', []]) @
            [replicate 80 61,
             str ''Press Ctrl+C to stop recording'',
             replicate 80 61])]\<rparr>)"

subsection \<open>transcription\_worker\<close>

text \<open>
  What the recognizer does when the worker calls it. For the entry of the \<open>with\<close>
  block: \<open>transcribe_stream\<close> returns (the text is not used) or raises. For a frame:
  \<open>add_audio\<close> and \<open>result\<close> return, the latter with the given text, or one of
  them raises; in both cases the frame has been handed to \<open>add_audio\<close>. The frame
  handed over is the content of the array taken from the queue (\<open>astype\<close> and
  \<open>mx.array\<close> copy it).
\<close>

datatype outcome = Returns pystr | Raises exn

definition stream_settings :: stream_config where
  "stream_settings = \<lparr>context_size = (256, 256), depth = 1, keep_original_attention = False\<rparr>"

text \<open>
  One step of the worker thread. \<open>Started\<close>: the first print and the entry of the
  \<open>with\<close> block. \<open>LoopHead\<close>: the test of \<open>while self.is_recording\<close>; leaving the
  loop leaves the \<open>with\<close> block. \<open>Waiting\<close>: \<open>get(timeout=0.1)\<close> and, when it
  delivers a frame, the rest of the loop body; on an empty queue the call ends with
  \<open>queue.Empty\<close> and the loop continues. An exception that \<open>except Exception\<close> does
  not catch leaves the \<open>with\<close> block and ends the thread.
\<close>

definition transcription_worker_step :: "outcome \<Rightarrow> datetime \<Rightarrow> 'a live_transcriber \<Rightarrow> 'a live_transcriber" where
  "transcription_worker_step oc now s =
     (case transcription_thread s of
        None \<Rightarrow> s
      | Some Started \<Rightarrow>
          (let s1 = print (str ''Starting transcription worker...'') s
           in case oc of
                Raises e \<Rightarrow> s1\<lparr>transcription_thread := Some (Crashed e)\<rparr>
              | Returns t \<Rightarrow> s1\<lparr>sessions := sessions s1 @ [Acquire stream_settings],
                                transcription_thread := Some LoopHead\<rparr>)
      | Some LoopHead \<Rightarrow>
          (if is_recording s then s\<lparr>transcription_thread := Some Waiting\<rparr>
           else s\<lparr>sessions := sessions s @ [Release], transcription_thread := Some Finished\<rparr>)
      | Some Waiting \<Rightarrow>
          (case audio_queue s of
             [] \<Rightarrow> s\<lparr>transcription_thread := Some LoopHead\<rparr>
           | audio_chunk # rest \<Rightarrow>
               (let s1 = s\<lparr>audio_queue := rest, submitted := submitted s @ [mem s audio_chunk]\<rparr>
                in case oc of
                     Returns text \<Rightarrow>
                       (if text \<noteq> current_text s1
                        then (display_transcription now (s1\<lparr>current_text := text\<rparr>))
                               \<lparr>transcription_thread := Some LoopHead\<rparr>
                        else s1\<lparr>transcription_thread := Some LoopHead\<rparr>)
                   | Raises e \<Rightarrow>
                       (if is_Exception e
                        then (print (str ''Transcription error: '' @ exn_str e) s1)
                               \<lparr>transcription_thread := Some LoopHead\<rparr>
                        else s1\<lparr>sessions := sessions s1 @ [Release],
                                transcription_thread := Some (Crashed e)\<rparr>)))
      | Some Finished \<Rightarrow> s
      | Some (Crashed e) \<Rightarrow> s)"

subsection \<open>The threads running side by side\<close>

text \<open>
  While the main thread sleeps or waits, the other two threads act. \<open>Callback k arr st\<close>:
  the audio subsystem fills its buffer \<open>k\<close> with \<open>arr\<close> and calls \<open>audio_callback\<close> on
  it with status \<open>st\<close>; a closed stream makes no calls, and an exception of the callback
  ends in the audio library's thread. \<open>Worker oc now\<close>: the worker thread takes its next
  step, the recognizer answering \<open>oc\<close>, the clock showing \<open>now\<close>.
\<close>

datatype 'a event = Callback nat "'a ndarray" "pystr option" | Worker outcome datetime

fun step :: "'a event \<Rightarrow> 'a live_transcriber \<Rightarrow> 'a live_transcriber" where
  "step (Callback k arr st) s =
     (if stream_active s
      then snd (audio_callback (Hw k) st (s\<lparr>mem := (mem s)(Hw k := arr)\<rparr>))
      else s)"
| "step (Worker oc now) s = transcription_worker_step oc now s"

definition run :: "'a event list \<Rightarrow> 'a live_transcriber \<Rightarrow> 'a live_transcriber" where
  "run evs s = fold step evs s"

subsection \<open>stop\_recording\<close>

text \<open>
  \<open>join(timeout=2.0)\<close> returns when the worker has ended or when the time is over,
  whichever is first: \<open>evs\<close> is what the other threads do until then. \<open>t_name\<close>
  and \<open>t_head\<close> are the two readings of \<open>datetime.now()\<close>.
\<close>

definition transcript_name :: "datetime \<Rightarrow> pystr" where
  "transcript_name t = str ''lecture_transcription_'' @ strftime_compact t @ str ''.txt''"

definition transcript_header :: "datetime \<Rightarrow> pystr" where
  "transcript_header t =
     str ''Lecture Transcription - '' @ strftime_long t @ [10] @ replicate 60 61 @ [10, 10]"

definition join_thread :: "'a event list \<Rightarrow> 'a live_transcriber \<Rightarrow> 'a live_transcriber" where
  \<comment> \<open>\<open>if self.transcription_thread: self.transcription_thread.join(timeout=2.0)\<close>\<close>
  "join_thread evs s = (case transcription_thread s of Some th \<Rightarrow> run evs s | None \<Rightarrow> s)"

definition stop_recording ::
  "'a event list \<Rightarrow> datetime \<Rightarrow> datetime \<Rightarrow> 'a live_transcriber \<Rightarrow> 'a live_transcriber" where
  "stop_recording evs t_name t_head s =
     (let s1 = s\<lparr>is_recording := False\<rparr>;
          s2 = join_thread evs s1;
          s3 = (if strip (current_text s2) \<noteq> []
                then
                  (let filename = transcript_name t_name;
                       s' = s2\<lparr>files := (files s2)(filename \<mapsto>
                               transcript_header t_head @ current_text s2)\<rparr>
                   in print ([10, 128190] @ str '' Transcription saved to: '' @ filename) s')
                else s2)
      in print ([10, 9989] @ str '' Session ended'') s3)"

subsection \<open>start\_recording\<close>

text \<open>Everything the surroundings decide during one run of the program.\<close>

record 'a env =
  query_devices :: "exn + pystr"
  from_pretrained :: "exn option"
  before_open :: "'a event list"
  input_stream :: "exn option"
  t_display :: datetime
  sleeps :: "'a event list list"
  interrupt :: "exn option"
  joining :: "'a event list"
  t_name :: datetime
  t_head :: datetime

text \<open>
  The loop \<open>while self.is_recording: time.sleep(0.1)\<close>: one list of events per sleep.
  When the listed sleeps are over, \<open>cause\<close> is the exception that arrives in the main
  thread (Ctrl+C is \<open>KeyboardInterrupt\<close>); with none the loop never ends, which is the
  result \<open>None\<close>.
\<close>

fun control_loop ::
  "'a event list list \<Rightarrow> exn option \<Rightarrow> 'a live_transcriber \<Rightarrow> (exn option \<times> 'a live_transcriber) option" where
  "control_loop [] cause s =
     (if \<not> is_recording s then Some (None, s)
      else case cause of None \<Rightarrow> None | Some e \<Rightarrow> Some (Some e, s))"
| "control_loop (evs # rest) cause s =
     (if \<not> is_recording s then Some (None, s)
      else control_loop rest cause (run evs s))"

text \<open>
  \<open>start_recording\<close> before the \<open>try\<close>: the prints, the flag, and the worker thread
  created and started; the worker may take steps before the stream is opened.
\<close>

definition launch :: "'a env \<Rightarrow> 'a live_transcriber \<Rightarrow> 'a live_transcriber" where
  "launch env s =
     (let s1 = prints [str ''Initializing audio capture...'',
                       str ''Sample rate: '' @ str_nat (sample_rate s) @ str '' Hz'',
                       str ''Chunk duration: '' @ shown (chunk_duration s) @ str '' seconds'',
                       []] s;
          s2 = s1\<lparr>is_recording := True\<rparr>;
          s3 = s2\<lparr>transcription_thread := Some Started\<rparr>
      in run (before_open env) s3)"

text \<open>The stream is open: the first lines of the \<open>with\<close> block.\<close>

definition listening :: "'a env \<Rightarrow> 'a live_transcriber \<Rightarrow> 'a live_transcriber" where
  "listening env s =
     (let s1 = s\<lparr>stream_active := True\<rparr>;
          s2 = print ([127908] @ str '' Recording started! Speak into your microphone...'') s1
      in display_transcription (t_display env) s2)"

text \<open>
  The \<open>try\<close> body of \<open>start_recording\<close>, up to the point where control leaves it:
  the exception that leaves it, if any, and the state; \<open>None\<close> when control never
  leaves it. \<open>sd.InputStream\<close> raises or opens the stream; leaving the \<open>with\<close> block
  closes the stream.
\<close>

definition recording_body ::
  "'a env \<Rightarrow> 'a live_transcriber \<Rightarrow> (exn option \<times> 'a live_transcriber) option" where
  "recording_body env s =
     (let s1 = launch env s;
          s2 = s1\<lparr>opens := Suc (opens s1)\<rparr>
      in case input_stream env of
           Some e \<Rightarrow> Some (Some e, s2)
         | None \<Rightarrow>
             (case control_loop (sleeps env) (interrupt env) (listening env s2) of
                None \<Rightarrow> None
              | Some (raised, s3) \<Rightarrow> Some (raised, s3\<lparr>stream_active := False\<rparr>)))"

text \<open>
  The \<open>except\<close> clauses: \<open>raised\<close> is what left the \<open>try\<close> body; the result is
  the exception that is still pending after them, if any.
\<close>

fun except_clauses ::
  "exn option \<Rightarrow> 'a live_transcriber \<Rightarrow> exn option \<times> 'a live_transcriber" where
  "except_clauses None s = (None, s)"
| "except_clauses (Some KeyboardInterrupt) s =
     (None, print ([10, 10, 128721] @ str '' Recording stopped by user'') s)"
| "except_clauses (Some (Exception m)) s =
     (None, print ([10, 10, 10060] @ str '' Error: '' @ m) s)"
| "except_clauses (Some (BaseException m)) s = (Some (BaseException m), s)"

text \<open>
  \<open>start_recording\<close>: the part before the \<open>try\<close> and the \<open>try\<close> body, the
  \<open>except\<close> clauses, and \<open>stop_recording\<close> in the \<open>finally\<close> clause. The result
  is the exception that leaves the method, if any, and the state.
\<close>

definition start_recording ::
  "'a env \<Rightarrow> 'a live_transcriber \<Rightarrow> (exn option \<times> 'a live_transcriber) option" where
  "start_recording env s =
     (case recording_body env s of
        None \<Rightarrow> None
      | Some (raised, s1) \<Rightarrow>
          (let (pending, s2) = except_clauses raised s1
           in Some (pending, stop_recording (joining env) (t_name env) (t_head env) s2)))"

subsection \<open>main\<close>

definition default_model :: pystr where
  "default_model = str ''mlx-community/parakeet-tdt-0.6b-v2''"

definition failed_to_start ::
  "exn \<Rightarrow> ('a, 'z) world_scheme \<Rightarrow> exn option \<times> ('a, 'z) world_scheme" where
  \<comment> \<open>the handler \<open>except Exception as e\<close> of \<open>main\<close>\<close>
  "failed_to_start e w =
     (if is_Exception e
      then (None, prints [[10060] @ str '' Failed to start transcription: '' @ exn_str e,
                          str ''Make sure you have a microphone connected and permissions enabled.''] w)
      else (Some e, w))"

text \<open>
  The result of \<open>main\<close>: \<open>None\<close> when it never returns; otherwise the exception that
  leaves it, if any, and the final state, which is the world alone when no
  \<open>LiveTranscriber\<close> came into being.
\<close>

definition main ::
  "'a env \<Rightarrow> 'a world \<Rightarrow> (exn option \<times> ('a world + 'a live_transcriber)) option" where
  "main env w =
     (let w1 = prints [[127891] @ str '' Live Lecture Transcription'',
                       str ''============================'',
                       [],
                       str ''Available audio devices:''] w
      in case query_devices env of
           Inl e \<Rightarrow> Some (Some e, Inl w1)
         | Inr devices \<Rightarrow>
             (let w2 = prints [devices, []] w1
              in case init (from_pretrained env) default_model 16000 one_second w2 of
                   Inl (e, w3) \<Rightarrow>
                     (let (r, w4) = failed_to_start e w3 in Some (r, Inl w4))
                 | Inr transcriber \<Rightarrow>
                     (case start_recording env transcriber of
                        None \<Rightarrow> None
                      | Some (None, s) \<Rightarrow> Some (None, Inr s)
                      | Some (Some e, s) \<Rightarrow>
                          (let (r, s') = failed_to_start e s in Some (r, Inr s')))))"


definition fresh_world :: "(pystr \<rightharpoonup> pystr) \<Rightarrow> 'a world" where
  "fresh_world fs =
     \<lparr>console = [], files = fs, loads = 0, opens = 0, mem = (\<lambda>a. Arr1 []), next_obj = 0,
      stream_active = False, sessions = [], submitted = []\<rparr>"

section \<open>Notions used to state the properties\<close>

text \<open>The frames waiting in the queue, oldest first.\<close>

definition queued :: "'a live_transcriber \<Rightarrow> 'a ndarray list" where
  "queued s = map (mem s) (audio_queue s)"

text \<open>Every queue entry is an array the process allocated itself.\<close>

fun owned_below :: "nat \<Rightarrow> addr \<Rightarrow> bool" where
  "owned_below n (Obj k) = (k < n)"
| "owned_below n (Hw k) = False"

definition queue_owned :: "'a live_transcriber \<Rightarrow> bool" where
  "queue_owned s = list_all (owned_below (next_obj s)) (audio_queue s)"

text \<open>
  The frames a schedule hands to an open stream's callback: channel 0 of each buffer
  that has one, a one-dimensional buffer as it is.
\<close>

fun enqueued_by :: "'a event \<Rightarrow> 'a ndarray list" where
  "enqueued_by (Callback k arr st) =
     (if ndim arr > 1 then (if has_column0 arr then [column0 arr] else []) else [arr])"
| "enqueued_by (Worker oc now) = []"

definition pushed :: "'a event list \<Rightarrow> 'a ndarray list" where
  "pushed evs = concat (map enqueued_by evs)"

text \<open>An answer of the recognizer that \<open>except Exception\<close> deals with.\<close>

fun catchable :: "outcome \<Rightarrow> bool" where
  "catchable (Returns t) = True"
| "catchable (Raises e) = is_Exception e"

text \<open>
  Full rounds of the worker loop, undisturbed: the test of the loop condition, then
  \<open>get\<close> and the loop body with the given answer and clock.
\<close>

fun rounds :: "(outcome \<times> datetime) list \<Rightarrow> 'a event list" where
  "rounds [] = []"
| "rounds ((oc, now) # r) = Worker oc now # Worker oc now # rounds r"

fun is_Screen :: "printed \<Rightarrow> bool" where
  "is_Screen (Screen ls) = True"
| "is_Screen (Print t) = False"

definition renders :: "('a, 'z) world_scheme \<Rightarrow> nat" where
  "renders w = length (filter is_Screen (console w))"

text \<open>How often a sequence of texts changes, starting from the text \<open>c\<close>.\<close>

fun changes :: "pystr \<Rightarrow> pystr list \<Rightarrow> nat" where
  "changes c [] = 0"
| "changes c (h # hs) = (if h \<noteq> c then Suc (changes h hs) else changes c hs)"

definition has_text :: "pystr \<Rightarrow> bool" where
  "has_text t = list_ex (\<lambda>c. \<not> isspace c) t"

text \<open>
  The streaming sessions of one worker thread, by where the thread stands: none before
  the \<open>with\<close> block, one open session inside it, the same session closed after it.
\<close>

fun scoped_log :: "worker_pc option \<Rightarrow> session_event list \<Rightarrow> bool" where
  "scoped_log None l = (l = [])"
| "scoped_log (Some Started) l = (l = [])"
| "scoped_log (Some LoopHead) l = (l = [Acquire stream_settings])"
| "scoped_log (Some Waiting) l = (l = [Acquire stream_settings])"
| "scoped_log (Some Finished) l = (l = [Acquire stream_settings, Release])"
| "scoped_log (Some (Crashed e)) l = (l = [] \<or> l = [Acquire stream_settings, Release])"

definition scoped :: "'a live_transcriber \<Rightarrow> bool" where
  "scoped s = scoped_log (transcription_thread s) (sessions s)"

text \<open>The worker thread has ended: it returned, or an exception ended it.\<close>

fun has_ended :: "worker_pc option \<Rightarrow> bool" where
  "has_ended (Some Finished) = True"
| "has_ended (Some (Crashed e)) = True"
| "has_ended (Some Started) = False"
| "has_ended (Some LoopHead) = False"
| "has_ended (Some Waiting) = False"
| "has_ended None = False"

text \<open>
  The world when \<open>main\<close> has printed its first lines and the call of
  \<open>from_pretrained\<close> has been made.
\<close>

definition boot :: "pystr \<Rightarrow> ('a, 'z) world_scheme \<Rightarrow> ('a, 'z) world_scheme" where
  "boot devices w =
     (print (str ''Loading model: '' @ default_model)
       (prints [devices, []]
         (prints [[127891] @ str '' Live Lecture Transcription'',
                       str ''============================'',
                       [],
                       str ''Available audio devices:''] w)))
     \<lparr>loads := Suc (loads w)\<rparr>"


text \<open>The texts the recognizer returned in a sequence of answers.\<close>

fun returned :: "outcome \<Rightarrow> pystr list" where
  "returned (Returns t) = [t]"
| "returned (Raises e) = []"

definition texts :: "(outcome \<times> datetime) list \<Rightarrow> pystr list" where
  "texts ocs = concat (map (\<lambda>p. returned (fst p)) ocs)"

text \<open>
  Rounds of the worker loop in which the recognizer returns the given hypotheses, one
  per frame.
\<close>

definition hypotheses :: "(pystr \<times> datetime) list \<Rightarrow> 'a event list" where
  "hypotheses hts = rounds (map (\<lambda>p. (Returns (fst p), snd p)) hts)"

text \<open>The state of the transcriber at the end of \<open>main\<close>, if there is one.\<close>

definition final_state :: "'a env \<Rightarrow> 'a world \<Rightarrow> 'a live_transcriber option" where
  "final_state env w =
     (case main env w of
        Some (r, Inr s) \<Rightarrow> Some s
      | Some (r, Inl w') \<Rightarrow> None
      | None \<Rightarrow> None)"

section \<open>Time\<close>

text \<open>
  Time is counted in milliseconds, and only the calls that wait take any. In the worker,
  \<open>get(timeout=0.1)\<close> on a queue that holds a frame returns at once, and on a queue
  that stays empty it returns after its 100 ms; the recognizer takes the time \<open>d\<close> that
  comes with the step, for entering the session and for a frame (\<open>add_audio\<close>,
  \<open>result\<close> and the redraw that may follow). The test of the loop condition takes no
  time, and a thread that has ended takes no step.
\<close>

definition pop_timeout :: nat where
  \<comment> \<open>\<open>self.audio_queue.get(timeout=0.1)\<close>\<close>
  "pop_timeout = 100"

definition join_timeout :: nat where
  \<comment> \<open>\<open>self.transcription_thread.join(timeout=2.0)\<close>\<close>
  "join_timeout = 2000"

definition step_time :: "nat \<Rightarrow> 'a live_transcriber \<Rightarrow> nat" where
  "step_time d s =
     (case transcription_thread s of
        Some Started \<Rightarrow> d
      | Some Waiting \<Rightarrow> (case audio_queue s of [] \<Rightarrow> pop_timeout | audio_chunk # rest \<Rightarrow> d)
      | _ \<Rightarrow> 0)"

text \<open>
  The worker's future, as a list of steps each with the time the recognizer takes in
  it, and the time after which the worker has ended on it; \<open>None\<close> when the steps
  given do not end it.
\<close>

type_synonym timed_step = "nat \<times> outcome \<times> datetime"

fun ends_after :: "timed_step list \<Rightarrow> 'a live_transcriber \<Rightarrow> nat option" where
  "ends_after [] s = (if has_ended (transcription_thread s) then Some 0 else None)"
| "ends_after ((d, oc, now) # rest) s =
     (if has_ended (transcription_thread s) then Some 0
      else map_option (\<lambda>t. step_time d s + t)
             (ends_after rest (transcription_worker_step oc now s)))"

text \<open>
  \<open>thread.join(timeout)\<close>: the caller waits until the worker has ended or the timeout is
  over, whichever is first. The result is the steps the worker has completed by then,
  and the time the caller has waited. A worker with no step left that has not ended
  makes no progress (its recognizer does not answer), and the caller waits for the
  whole timeout.
\<close>

fun thread_join :: "nat \<Rightarrow> timed_step list \<Rightarrow> 'a live_transcriber \<Rightarrow> 'a event list \<times> nat" where
  "thread_join timeout [] s = ([], if has_ended (transcription_thread s) then 0 else timeout)"
| "thread_join timeout ((d, oc, now) # rest) s =
     (if has_ended (transcription_thread s) then ([], 0)
      else if step_time d s \<le> timeout
      then (case thread_join (timeout - step_time d s) rest (transcription_worker_step oc now s) of
              (evs, t) \<Rightarrow> (Worker oc now # evs, step_time d s + t))
      else ([], timeout))"

text \<open>
  \<open>stop_recording\<close> with the time it waits in \<open>join\<close>; without a thread object there
  is no call of \<open>join\<close>.
\<close>

definition stop_recording_timed ::
  "timed_step list \<Rightarrow> datetime \<Rightarrow> datetime \<Rightarrow> 'a live_transcriber \<Rightarrow> 'a live_transcriber \<times> nat" where
  "stop_recording_timed tws tn th s =
     (case transcription_thread s of
        None \<Rightarrow> (stop_recording [] tn th s, 0)
      | Some thread \<Rightarrow>
          (case thread_join join_timeout tws (s\<lparr>is_recording := False\<rparr>) of
             (evs, t) \<Rightarrow> (stop_recording evs tn th s, t)))"

section \<open>Examples\<close>

definition noon :: datetime where
  "noon = \<lparr>year = 2024, month = 5, day = 17, hour = 12, minute = 0, second = 0\<rparr>"

text \<open>
  A session in the Recording state, the worker at its loop condition, with a backlog of
  five frames and nothing recognized yet.
\<close>

definition session_with_backlog :: "nat live_transcriber" where
  "session_with_backlog =
     \<lparr>console = [], files = Map.empty, loads = 1, opens = 1,
      mem = (\<lambda>a. case a of Obj n \<Rightarrow> Arr1 [n] | Hw k \<Rightarrow> Arr2 []),
      next_obj = 5, stream_active = True,
      sessions = [Acquire stream_settings], submitted = [],
      model = default_model, sample_rate = 16000, chunk_duration = one_second,
      chunk_size = 16000,
      audio_queue = [Obj 0, Obj 1, Obj 2, Obj 3, Obj 4], is_recording = True,
      transcription_thread = Some LoopHead, full_transcription = [], current_text = []\<rparr>"

text \<open>
  A session in the Recording state with an open stream and an empty queue, the worker
  at its loop condition.
\<close>

definition session_started :: "nat live_transcriber" where
  "session_started =
     \<lparr>console = [], files = Map.empty, loads = 1, opens = 1,
      mem = (\<lambda>a. Arr2 []), next_obj = 0, stream_active = True,
      sessions = [Acquire stream_settings], submitted = [],
      model = default_model, sample_rate = 16000, chunk_duration = one_second,
      chunk_size = 16000,
      audio_queue = [], is_recording = True,
      transcription_thread = Some LoopHead, full_transcription = [], current_text = []\<rparr>"

text \<open>
  Two buffers arrive while the worker does not run; then the session is stopped, and
  the worker takes two steps while the controller waits for it.
\<close>

definition backlog_at_stop :: "nat live_transcriber" where
  "backlog_at_stop =
     run [Callback 0 (Arr2 [[1], [2]]) None, Callback 0 (Arr2 [[3], [4]]) None] session_started"

definition backlog_after_stop :: "nat live_transcriber" where
  "backlog_after_stop =
     stop_recording [Worker (Returns []) noon, Worker (Returns []) noon] noon noon
       backlog_at_stop"

text \<open>The audio subsystem has put a stereo buffer of two audio frames into its buffer 0.\<close>

definition stereo_delivered :: "nat live_transcriber" where
  "stereo_delivered =
     session_started\<lparr>mem := (mem session_started)(Hw 0 := Arr2 [[1, 10], [2, 20]])\<rparr>"

text \<open>
  The session at the moment \<open>stop_recording\<close> is called, the stream closed and the
  worker at its loop condition: once with a transcript of two blanks, once with a
  transcript while a file of the name to be written exists already.
\<close>

definition blank_transcript :: "nat live_transcriber" where
  "blank_transcript = session_started\<lparr>current_text := [32, 32], stream_active := False\<rparr>"

definition second_run :: "nat live_transcriber" where
  "second_run =
     session_started\<lparr>current_text := str ''hello world'', stream_active := False,
       files := [transcript_name noon \<mapsto> str ''an earlier transcript'']\<rparr>"

text \<open>The transcriber as \<open>main\<close> constructs it on a system without files.\<close>

definition constructed :: "nat live_transcriber" where
  "constructed =
     new_object default_model 16000 one_second
       (boot (str ''0 Built-in Microphone'') (fresh_world Map.empty))"


definition device_unavailable :: "nat env" where
  "device_unavailable =
     \<lparr>query_devices = Inr (str ''0 Built-in Microphone''),
      from_pretrained = None,
      before_open = [], input_stream = Some (Exception (str ''no input device'')),
      t_display = noon, sleeps = [],
      interrupt = None, joining = [], t_name = noon, t_head = noon\<rparr>"

definition blank_heard :: "nat env" where
  "blank_heard =
     \<lparr>query_devices = Inr (str ''0 Built-in Microphone''),
      from_pretrained = None,
      before_open = [Worker (Returns []) noon], input_stream = None, t_display = noon,
      sleeps = [[Callback 0 (Arr2 [[0], [0]]) None],
                [Worker (Returns [32]) noon, Worker (Returns [32]) noon]],
      interrupt = Some KeyboardInterrupt,
      joining = [Worker (Returns []) noon], t_name = noon, t_head = noon\<rparr>"

text \<open>
  The session with five frames waiting when \<open>stop_recording\<close> has cleared the flag:
  the stream is closed, and the worker has passed its loop condition and is in \<open>get\<close>.
\<close>

definition stopped_in_get :: "nat live_transcriber" where
  "stopped_in_get =
     (transcription_worker_step (Returns []) noon session_with_backlog)
       \<lparr>stream_active := False, is_recording := False\<rparr>"

section \<open>Proofs\<close>

subsection \<open>Runs, and the test for white space\<close>

lemma run_Nil [simp]: "run [] s = s"
  by (simp add: run_def)

lemma run_Cons [simp]: "run (e # evs) s = run evs (step e s)"
  by (simp add: run_def)

lemma run_append [simp]: "run (xs @ ys) s = run ys (run xs s)"
  by (simp add: run_def)

lemma dropWhile_keeps_offender:
  "dropWhile P xs \<noteq> [] \<Longrightarrow> \<exists>x\<in>set (dropWhile P xs). \<not> P x"
  by (metis hd_dropWhile hd_in_set)

lemma strip_nonempty: "strip t \<noteq> [] \<longleftrightarrow> has_text t"
proof -
  have "strip t \<noteq> [] \<longleftrightarrow> (\<exists>x\<in>set (dropWhile isspace t). \<not> isspace x)"
    by (simp add: strip_def dropWhile_eq_Nil_conv)
  also have "\<dots> \<longleftrightarrow> (\<exists>x\<in>set t. \<not> isspace x)"
  proof
    assume "\<exists>x\<in>set (dropWhile isspace t). \<not> isspace x"
    then show "\<exists>x\<in>set t. \<not> isspace x"
      by (blast dest: set_dropWhileD)
  next
    assume "\<exists>x\<in>set t. \<not> isspace x"
    then have "dropWhile isspace t \<noteq> []"
      by (simp add: dropWhile_eq_Nil_conv)
    then show "\<exists>x\<in>set (dropWhile isspace t). \<not> isspace x"
      by (rule dropWhile_keeps_offender)
  qed
  finally show ?thesis
    by (simp add: has_text_def list_ex_iff)
qed

subsection \<open>What a step leaves alone\<close>

lemma audio_callback_frame:
  "is_recording (snd (audio_callback a st s)) = is_recording s"
  "stream_active (snd (audio_callback a st s)) = stream_active s"
  "transcription_thread (snd (audio_callback a st s)) = transcription_thread s"
  "current_text (snd (audio_callback a st s)) = current_text s"
  "full_transcription (snd (audio_callback a st s)) = full_transcription s"
  "files (snd (audio_callback a st s)) = files s"
  "sessions (snd (audio_callback a st s)) = sessions s"
  "submitted (snd (audio_callback a st s)) = submitted s"
  "loads (snd (audio_callback a st s)) = loads s"
  "opens (snd (audio_callback a st s)) = opens s"
  by (simp_all add: audio_callback_def np_copy_def queue_put_def print_def Let_def
      split: option.splits)

lemma worker_step_frame:
  "is_recording (transcription_worker_step oc now s) = is_recording s"
  "stream_active (transcription_worker_step oc now s) = stream_active s"
  "full_transcription (transcription_worker_step oc now s) = full_transcription s"
  "files (transcription_worker_step oc now s) = files s"
  "loads (transcription_worker_step oc now s) = loads s"
  "opens (transcription_worker_step oc now s) = opens s"
  "mem (transcription_worker_step oc now s) = mem s"
  "next_obj (transcription_worker_step oc now s) = next_obj s"
  by (simp_all add: transcription_worker_step_def display_transcription_def print_def Let_def
      split: option.splits worker_pc.splits list.splits outcome.splits)

lemma step_frame:
  "is_recording (step e s) = is_recording s"
  "stream_active (step e s) = stream_active s"
  "full_transcription (step e s) = full_transcription s"
  "files (step e s) = files s"
  "loads (step e s) = loads s"
  "opens (step e s) = opens s"
  by (cases e; simp add: audio_callback_frame worker_step_frame)+

lemma run_frame:
  "is_recording (run evs s) = is_recording s"
  "stream_active (run evs s) = stream_active s"
  "full_transcription (run evs s) = full_transcription s"
  "files (run evs s) = files s"
  "loads (run evs s) = loads s"
  "opens (run evs s) = opens s"
  by (induction evs arbitrary: s; simp add: step_frame)+

subsection \<open>One round of the worker loop\<close>

lemma check_step:
  assumes "transcription_thread s = Some LoopHead" "is_recording s"
  shows "transcription_worker_step oc now s = s\<lparr>transcription_thread := Some Waiting\<rparr>"
  using assms by (simp add: transcription_worker_step_def)

lemma get_step_Returns:
  assumes "transcription_thread s = Some Waiting" "audio_queue s = a # q"
  shows "transcription_worker_step (Returns t) now s =
     (if t \<noteq> current_text s
      then (display_transcription now
             (s\<lparr>audio_queue := q, submitted := submitted s @ [mem s a], current_text := t\<rparr>))
             \<lparr>transcription_thread := Some LoopHead\<rparr>
      else s\<lparr>audio_queue := q, submitted := submitted s @ [mem s a],
             transcription_thread := Some LoopHead\<rparr>)"
  using assms by (simp add: transcription_worker_step_def)

lemma get_step_Raises:
  assumes "transcription_thread s = Some Waiting" "audio_queue s = a # q"
  shows "transcription_worker_step (Raises (Exception m)) now s =
     (print (str ''Transcription error: '' @ m)
        (s\<lparr>audio_queue := q, submitted := submitted s @ [mem s a]\<rparr>))
        \<lparr>transcription_thread := Some LoopHead\<rparr>"
  using assms by (simp add: transcription_worker_step_def)

lemma round_Returns:
  assumes "transcription_thread s = Some LoopHead" "is_recording s" "audio_queue s = a # q"
  shows "run (rounds [(Returns t, now)]) s =
     (if t \<noteq> current_text s
      then (display_transcription now
             (s\<lparr>audio_queue := q, submitted := submitted s @ [mem s a], current_text := t\<rparr>))
      else s\<lparr>audio_queue := q, submitted := submitted s @ [mem s a]\<rparr>)"
proof -
  let ?w = "s\<lparr>transcription_thread := Some Waiting\<rparr>"
  have 1: "transcription_worker_step (Returns t) now s = ?w"
    using assms by (simp add: check_step)
  have 2: "transcription_thread ?w = Some Waiting" "audio_queue ?w = a # q"
    using assms by simp_all
  show ?thesis
    using assms(1) by (simp add: 1 get_step_Returns [OF 2] display_transcription_def)
qed

lemma round_Raises:
  assumes "transcription_thread s = Some LoopHead" "is_recording s" "audio_queue s = a # q"
  shows "run (rounds [(Raises (Exception m), now)]) s =
     print (str ''Transcription error: '' @ m)
        (s\<lparr>audio_queue := q, submitted := submitted s @ [mem s a]\<rparr>)"
proof -
  let ?w = "s\<lparr>transcription_thread := Some Waiting\<rparr>"
  have 1: "transcription_worker_step (Raises (Exception m)) now s = ?w"
    using assms by (simp add: check_step)
  have 2: "transcription_thread ?w = Some Waiting" "audio_queue ?w = a # q"
    using assms by simp_all
  show ?thesis
    using assms(1) by (simp add: 1 get_step_Raises [OF 2] print_def)
qed

lemma round_fields:
  assumes "transcription_thread s = Some LoopHead" "is_recording s"
    and "audio_queue s = a # q" "catchable oc"
  shows "transcription_thread (run (rounds [(oc, now)]) s) = Some LoopHead \<and>
    is_recording (run (rounds [(oc, now)]) s) \<and>
    audio_queue (run (rounds [(oc, now)]) s) = q \<and>
    submitted (run (rounds [(oc, now)]) s) = submitted s @ [mem s a] \<and>
    mem (run (rounds [(oc, now)]) s) = mem s \<and>
    sessions (run (rounds [(oc, now)]) s) = sessions s \<and>
    current_text (run (rounds [(oc, now)]) s) = last (current_text s # returned oc) \<and>
    renders (run (rounds [(oc, now)]) s) = renders s + changes (current_text s) (returned oc)"
proof (cases oc)
  case (Returns t)
  show ?thesis
    unfolding Returns using assms(1-3)
    by (simp add: round_Returns [OF assms(1-3)] display_transcription_def renders_def
        del: rounds.simps run_Cons)
next
  case (Raises e)
  with assms(4) obtain m where e: "e = Exception m"
    by (cases e) simp_all
  show ?thesis
    unfolding Raises e using assms(1-3)
    by (simp add: round_Raises [OF assms(1-3)] print_def renders_def
        del: rounds.simps run_Cons)
qed

lemma changes_append:
  "changes c (xs @ ys) = changes c xs + changes (last (c # xs)) ys"
  by (induction xs arbitrary: c) auto

lemma last_chain: "last (c # xs @ ys) = last (last (c # xs) # ys)"
  by (cases ys) auto

lemma rounds_append: "rounds (xs @ ys) = rounds xs @ rounds ys"
  by (induction xs) auto

lemma texts_Cons: "texts (p # r) = returned (fst p) @ texts r"
  by (simp add: texts_def)

lemma rounds_fields:
  assumes "transcription_thread s = Some LoopHead" "is_recording s"
    and "list_all (\<lambda>p. catchable (fst p)) ocs" "length ocs \<le> length (audio_queue s)"
  shows "transcription_thread (run (rounds ocs) s) = Some LoopHead \<and>
    is_recording (run (rounds ocs) s) \<and>
    audio_queue (run (rounds ocs) s) = drop (length ocs) (audio_queue s) \<and>
    submitted (run (rounds ocs) s) = submitted s @ take (length ocs) (queued s) \<and>
    mem (run (rounds ocs) s) = mem s \<and>
    sessions (run (rounds ocs) s) = sessions s \<and>
    current_text (run (rounds ocs) s) = last (current_text s # texts ocs) \<and>
    renders (run (rounds ocs) s) = renders s + changes (current_text s) (texts ocs)"
  using assms
proof (induction ocs arbitrary: s)
  case Nil
  then show ?case by (simp add: texts_def)
next
  case (Cons p r)
  obtain oc now where p: "p = (oc, now)"
    by (cases p)
  from Cons.prems(4) obtain a q where q: "audio_queue s = a # q"
    by (cases "audio_queue s") auto
  let ?s1 = "run (rounds [(oc, now)]) s"
  have c: "catchable oc"
    using Cons.prems(3) p by simp
  note one = round_fields [OF Cons.prems(1,2) q c, of now]
  have len: "length r \<le> length (audio_queue ?s1)"
    using Cons.prems(4) q one by simp
  have rest: "list_all (\<lambda>p. catchable (fst p)) r"
    using Cons.prems(3) by simp
  have th: "transcription_thread ?s1 = Some LoopHead" and rec: "is_recording ?s1"
    using one by blast+
  note ih = Cons.IH [OF th rec rest len]
  have run: "run (rounds (p # r)) s = run (rounds r) ?s1"
    by (simp add: p)
  have qd: "queued ?s1 = map (mem s) q" "queued s = mem s a # map (mem s) q"
    using one q by (simp_all add: queued_def)
  show ?case
    unfolding run
    using ih one q
    by (simp add: p qd texts_Cons changes_append last_chain del: rounds.simps run_Cons)
qed

subsection \<open>The queue between the two threads\<close>

lemma owned_map_Hw:
  "list_all (owned_below n) q \<Longrightarrow> map (m(Hw k := arr)) q = map m q"
  by (induction q) (auto elim: owned_below.elims)

lemma owned_map_Obj:
  "list_all (owned_below n) q \<Longrightarrow> map (m(Obj n := v)) q = map m q"
  by (induction q) (auto elim: owned_below.elims)

lemma owned_mono:
  "list_all (owned_below n) q \<Longrightarrow> list_all (owned_below (Suc n)) q"
  by (induction q) (auto elim!: owned_below.elims)

lemma callback_fifo:
  assumes "queue_owned s" "stream_active s"
  shows "queue_owned (step (Callback k arr st) s) \<and>
    submitted (step (Callback k arr st) s) @ queued (step (Callback k arr st) s) =
      submitted s @ queued s @ enqueued_by (Callback k arr st)"
proof -
  have own: "list_all (owned_below (next_obj s)) (audio_queue s)"
    using assms(1) by (simp add: queue_owned_def)
  note maps = owned_map_Hw [OF own] owned_map_Obj [OF own] owned_mono [OF own]
  show ?thesis
    using assms(2) own
    by (cases arr; cases st)
       (simp_all add: audio_callback_def np_copy_def queue_put_def print_def Let_def
          queued_def queue_owned_def maps)
qed

lemma worker_fifo:
  assumes "queue_owned s"
  shows "queue_owned (transcription_worker_step oc now s) \<and>
    submitted (transcription_worker_step oc now s) @ queued (transcription_worker_step oc now s) =
      submitted s @ queued s"
proof (cases "transcription_thread s")
  case None
  then show ?thesis using assms by (simp add: transcription_worker_step_def)
next
  case (Some pc)
  show ?thesis
  proof (cases pc)
    case Started
    then show ?thesis
      using assms Some
      by (cases oc) (simp_all add: transcription_worker_step_def print_def queued_def queue_owned_def)
  next
    case LoopHead
    then show ?thesis
      using assms Some by (simp add: transcription_worker_step_def queued_def queue_owned_def)
  next
    case Waiting
    show ?thesis
    proof (cases "audio_queue s")
      case Nil
      then show ?thesis
        using assms Some Waiting by (simp add: transcription_worker_step_def queued_def queue_owned_def)
    next
      case (Cons a q)
      then show ?thesis
        using assms Some Waiting
        by (cases oc)
           (simp_all add: transcription_worker_step_def queued_def queue_owned_def print_def
              display_transcription_def Let_def)
    qed
  next
    case Finished
    then show ?thesis using assms Some by (simp add: transcription_worker_step_def)
  next
    case (Crashed e)
    then show ?thesis using assms Some by (simp add: transcription_worker_step_def)
  qed
qed

lemma step_fifo:
  assumes "queue_owned s" "stream_active s"
  shows "queue_owned (step e s) \<and>
    submitted (step e s) @ queued (step e s) = submitted s @ queued s @ enqueued_by e"
proof (cases e)
  case (Callback k arr st)
  then show ?thesis using callback_fifo [OF assms] by simp
next
  case (Worker oc now)
  then show ?thesis using worker_fifo [OF assms(1)] by simp
qed

lemma run_fifo:
  assumes "queue_owned s" "stream_active s"
  shows "queue_owned (run evs s) \<and>
    submitted (run evs s) @ queued (run evs s) = submitted s @ queued s @ pushed evs"
  using assms
proof (induction evs arbitrary: s)
  case Nil
  then show ?case by (simp add: pushed_def)
next
  case (Cons e evs)
  have 1: "queue_owned (step e s)" "stream_active (step e s)"
    using step_fifo [OF Cons.prems] Cons.prems(2) by (simp_all add: step_frame)
  have 2: "submitted (step e s) @ queued (step e s) = submitted s @ queued s @ enqueued_by e"
    using step_fifo [OF Cons.prems] by simp
  have "submitted (run evs (step e s)) @ queued (run evs (step e s)) =
      (submitted (step e s) @ queued (step e s)) @ pushed evs"
    using Cons.IH [OF 1] by simp
  then show ?case
    using Cons.IH [OF 1] by (simp add: 2 pushed_def)
qed

subsection \<open>The worker at the end of the session\<close>

lemma exit_step:
  assumes "transcription_thread s = Some LoopHead" "\<not> is_recording s"
  shows "transcription_worker_step oc now s =
    s\<lparr>sessions := sessions s @ [Release], transcription_thread := Some Finished\<rparr>"
  using assms by (simp add: transcription_worker_step_def)

lemma empty_get_step:
  assumes "transcription_thread s = Some Waiting" "audio_queue s = []"
  shows "transcription_worker_step oc now s = s\<lparr>transcription_thread := Some LoopHead\<rparr>"
  using assms by (simp add: transcription_worker_step_def)

lemma finished_step:
  assumes "transcription_thread s = Some Finished"
  shows "transcription_worker_step oc now s = s"
  using assms by (simp add: transcription_worker_step_def)

lemma crashed_step:
  assumes "transcription_thread s = Some (Crashed e)"
  shows "transcription_worker_step oc now s = s"
  using assms by (simp add: transcription_worker_step_def)

lemma worker_step_queue_length:
  "length (audio_queue s) \<le> Suc (length (audio_queue (transcription_worker_step oc now s)))"
  by (simp add: transcription_worker_step_def display_transcription_def print_def Let_def
      split: option.splits worker_pc.splits list.splits outcome.splits)

lemma get_step_pc:
  assumes "transcription_thread s = Some Waiting"
  shows "transcription_thread (transcription_worker_step oc now s) = Some LoopHead \<or>
    (\<exists>e. transcription_thread (transcription_worker_step oc now s) = Some (Crashed e))"
  using assms
  by (simp add: transcription_worker_step_def display_transcription_def print_def Let_def
      split: list.splits outcome.splits)

lemma ended_step:
  assumes "transcription_thread s = Some Finished \<or> (\<exists>e. transcription_thread s = Some (Crashed e))"
  shows "submitted (step ev s) = submitted s \<and>
    (transcription_thread (step ev s) = transcription_thread s)"
proof (cases ev)
  case (Callback k arr st)
  then show ?thesis by (simp add: audio_callback_frame)
next
  case (Worker oc now)
  then show ?thesis using assms by (auto simp: finished_step crashed_step)
qed

lemma ended_run:
  assumes "transcription_thread s = Some Finished \<or> (\<exists>e. transcription_thread s = Some (Crashed e))"
  shows "submitted (run evs s) = submitted s \<and>
    transcription_thread (run evs s) = transcription_thread s"
  using assms
proof (induction evs arbitrary: s)
  case Nil
  then show ?case by simp
next
  case (Cons ev evs)
  have 1: "submitted (step ev s) = submitted s"
    and 2: "transcription_thread (step ev s) = transcription_thread s"
    using ended_step [OF Cons.prems] by blast+
  have "transcription_thread (step ev s) = Some Finished \<or>
      (\<exists>e. transcription_thread (step ev s) = Some (Crashed e))"
    using Cons.prems 2 by simp
  from Cons.IH [OF this] show ?case
    by (simp add: 1 2)
qed

subsection \<open>The streaming session of the worker\<close>

lemma scoped_flag: "scoped (s\<lparr>is_recording := b\<rparr>) = scoped s"
  by (simp add: scoped_def)

lemma scoped_worker_step:
  assumes "scoped s"
  shows "scoped (transcription_worker_step oc now s)"
proof (cases "transcription_thread s")
  case None
  then show ?thesis using assms by (simp add: transcription_worker_step_def)
next
  case (Some pc)
  then show ?thesis
    using assms
    by (cases pc)
       (auto simp: transcription_worker_step_def scoped_def display_transcription_def print_def Let_def
          split: list.splits outcome.splits)
qed

lemma scoped_step:
  assumes "scoped s"
  shows "scoped (step ev s)"
proof (cases ev)
  case (Callback k arr st)
  then show ?thesis
    using assms by (simp add: scoped_def audio_callback_frame)
next
  case (Worker oc now)
  then show ?thesis
    using assms by (simp add: scoped_worker_step)
qed

lemma scoped_run:
  assumes "scoped s"
  shows "scoped (run evs s)"
  using assms by (induction evs arbitrary: s) (simp_all add: scoped_step)

subsection \<open>Facts about stop\_recording\<close>

lemma join_thread_frame:
  "is_recording (join_thread evs s) = is_recording s"
  "stream_active (join_thread evs s) = stream_active s"
  "full_transcription (join_thread evs s) = full_transcription s"
  "files (join_thread evs s) = files s"
  "loads (join_thread evs s) = loads s"
  "opens (join_thread evs s) = opens s"
  by (simp_all add: join_thread_def run_frame split: option.splits)

lemma stop_recording_eq:
  "stop_recording evs tn th s =
     (if has_text (current_text (join_thread evs (s\<lparr>is_recording := False\<rparr>)))
      then (join_thread evs (s\<lparr>is_recording := False\<rparr>))
             \<lparr>console := console (join_thread evs (s\<lparr>is_recording := False\<rparr>)) @
                [Print ([10, 128190] @ str '' Transcription saved to: '' @ transcript_name tn),
                 Print ([10, 9989] @ str '' Session ended'')],
              files := (files s)(transcript_name tn \<mapsto>
                transcript_header th @
                current_text (join_thread evs (s\<lparr>is_recording := False\<rparr>)))\<rparr>
      else (join_thread evs (s\<lparr>is_recording := False\<rparr>))
             \<lparr>console := console (join_thread evs (s\<lparr>is_recording := False\<rparr>)) @
                [Print ([10, 9989] @ str '' Session ended'')]\<rparr>)"
  by (simp add: stop_recording_def Let_def strip_nonempty print_def join_thread_frame)

lemma stop_recording_fields:
  "is_recording (stop_recording evs tn th s) = False"
  "submitted (stop_recording evs tn th s) =
     submitted (join_thread evs (s\<lparr>is_recording := False\<rparr>))"
  "audio_queue (stop_recording evs tn th s) =
     audio_queue (join_thread evs (s\<lparr>is_recording := False\<rparr>))"
  "mem (stop_recording evs tn th s) = mem (join_thread evs (s\<lparr>is_recording := False\<rparr>))"
  "transcription_thread (stop_recording evs tn th s) =
     transcription_thread (join_thread evs (s\<lparr>is_recording := False\<rparr>))"
  "sessions (stop_recording evs tn th s) =
     sessions (join_thread evs (s\<lparr>is_recording := False\<rparr>))"
  "current_text (stop_recording evs tn th s) =
     current_text (join_thread evs (s\<lparr>is_recording := False\<rparr>))"
  "full_transcription (stop_recording evs tn th s) = full_transcription s"
  "stream_active (stop_recording evs tn th s) = stream_active s"
  "loads (stop_recording evs tn th s) = loads s"
  "opens (stop_recording evs tn th s) = opens s"
  by (simp_all add: stop_recording_eq join_thread_frame)

lemma started_step_pc:
  assumes "transcription_thread s = Some Started"
  shows "transcription_thread (transcription_worker_step (Returns t) now s) = Some LoopHead"
  using assms by (simp add: transcription_worker_step_def print_def)

lemma get_step_catchable:
  assumes "transcription_thread s = Some Waiting" "catchable oc"
  shows "transcription_thread (transcription_worker_step oc now s) = Some LoopHead"
  using assms
  by (cases oc)
     (simp_all add: transcription_worker_step_def display_transcription_def print_def Let_def
        split: list.splits)

subsection \<open>Facts about start\_recording\<close>

lemma thread_exists_step:
  assumes "transcription_thread s \<noteq> None"
  shows "transcription_thread (step ev s) \<noteq> None"
proof (cases ev)
  case (Callback k arr st)
  then show ?thesis using assms by (simp add: audio_callback_frame)
next
  case (Worker oc now)
  from assms obtain pc where "transcription_thread s = Some pc"
    by blast
  then show ?thesis
    using Worker
    by (cases pc)
       (auto simp: transcription_worker_step_def display_transcription_def print_def Let_def
          split: list.splits outcome.splits)
qed

lemma thread_exists_run:
  assumes "transcription_thread s \<noteq> None"
  shows "transcription_thread (run evs s) \<noteq> None"
  using assms by (induction evs arbitrary: s) (simp_all add: thread_exists_step del: not_None_eq)

lemma launch_frame:
  "is_recording (launch env s)"
  "stream_active (launch env s) = stream_active s"
  "full_transcription (launch env s) = full_transcription s"
  "files (launch env s) = files s"
  "loads (launch env s) = loads s"
  "opens (launch env s) = opens s"
  by (simp_all add: launch_def Let_def run_frame prints_def)

lemma launch_thread: "transcription_thread (launch env s) \<noteq> None"
  unfolding launch_def Let_def by (rule thread_exists_run) simp

lemma listening_frame:
  "is_recording (listening env s) = is_recording s"
  "stream_active (listening env s)"
  "full_transcription (listening env s) = full_transcription s"
  "files (listening env s) = files s"
  "loads (listening env s) = loads s"
  "opens (listening env s) = opens s"
  "transcription_thread (listening env s) = transcription_thread s"
  "current_text (listening env s) = current_text s"
  "audio_queue (listening env s) = audio_queue s"
  "submitted (listening env s) = submitted s"
  "sessions (listening env s) = sessions s"
  "mem (listening env s) = mem s"
  "next_obj (listening env s) = next_obj s"
  by (simp_all add: listening_def Let_def display_transcription_def print_def)

lemma control_loop_recording:
  assumes "is_recording s"
  shows "control_loop sl cause s =
    (case cause of None \<Rightarrow> None | Some e \<Rightarrow> Some (Some e, run (concat sl) s))"
  using assms by (induction sl arbitrary: s) (simp_all add: run_frame split: option.splits)

lemma recording_body_open_fails:
  assumes "input_stream env = Some e"
  shows "recording_body env s =
    Some (Some e, (launch env s)\<lparr>opens := Suc (opens (launch env s))\<rparr>)"
  using assms by (simp add: recording_body_def Let_def)

lemma recording_body_interrupted:
  assumes "input_stream env = None" "interrupt env = Some e"
  shows "recording_body env s =
    Some (Some e,
      (run (concat (sleeps env))
         (listening env ((launch env s)\<lparr>opens := Suc (opens (launch env s))\<rparr>)))
      \<lparr>stream_active := False\<rparr>)"
  using assms
  by (simp add: recording_body_def Let_def control_loop_recording listening_frame launch_frame)

lemma recording_body_forever:
  assumes "input_stream env = None" "interrupt env = None"
  shows "recording_body env s = None"
  using assms
  by (simp add: recording_body_def Let_def control_loop_recording listening_frame launch_frame)

lemma recording_body_frame:
  assumes "recording_body env s = Some (raised, s9)"
  shows "raised = (case input_stream env of Some e \<Rightarrow> Some e | None \<Rightarrow> interrupt env) \<and>
    is_recording s9 \<and> \<not> stream_active s9 = (input_stream env = None \<or> \<not> stream_active s) \<and>
    full_transcription s9 = full_transcription s \<and> files s9 = files s \<and>
    loads s9 = loads s \<and> opens s9 = Suc (opens s) \<and> transcription_thread s9 \<noteq> None"
proof (cases "input_stream env")
  case (Some e)
  show ?thesis
    using assms unfolding recording_body_open_fails [OF Some]
    using launch_thread [of env s] by (auto simp: Some launch_frame)
next
  case None
  show ?thesis
  proof (cases "interrupt env")
    case inone: None
    show ?thesis
      using assms unfolding recording_body_forever [OF None inone] by simp
  next
    case (Some e)
    show ?thesis
      using assms unfolding recording_body_interrupted [OF None Some]
      using thread_exists_run [of "listening env ((launch env s)\<lparr>opens := Suc (opens (launch env s))\<rparr>)"
          "concat (sleeps env)"] launch_thread [of env s]
      by (auto simp: None Some run_frame listening_frame launch_frame)
  qed
qed

lemma except_clauses_frame:
  "is_recording (snd (except_clauses raised s)) = is_recording s"
  "stream_active (snd (except_clauses raised s)) = stream_active s"
  "full_transcription (snd (except_clauses raised s)) = full_transcription s"
  "files (snd (except_clauses raised s)) = files s"
  "loads (snd (except_clauses raised s)) = loads s"
  "opens (snd (except_clauses raised s)) = opens s"
  "transcription_thread (snd (except_clauses raised s)) = transcription_thread s"
  "current_text (snd (except_clauses raised s)) = current_text s"
  "audio_queue (snd (except_clauses raised s)) = audio_queue s"
  "submitted (snd (except_clauses raised s)) = submitted s"
  "sessions (snd (except_clauses raised s)) = sessions s"
  "mem (snd (except_clauses raised s)) = mem s"
  by (cases "(raised, s)" rule: except_clauses.cases; simp add: print_def)+

lemma start_recording_eq:
  assumes "recording_body env s = Some (raised, s9)"
  shows "start_recording env s =
    Some (fst (except_clauses raised s9),
          stop_recording (joining env) (t_name env) (t_head env) (snd (except_clauses raised s9)))"
  using assms by (simp add: start_recording_def split: prod.splits)

subsection \<open>Facts about main\<close>

lemma main_devices_fail:
  assumes "query_devices env = Inl e"
  shows "main env w =
    Some (Some e, Inl (prints [[127891] @ str '' Live Lecture Transcription'',
                       str ''============================'',
                       [],
                       str ''Available audio devices:''] w))"
  using assms by (simp add: main_def Let_def)

lemma main_model_fails:
  assumes "query_devices env = Inr d" "from_pretrained env = Some e"
  shows "main env w =
    Some (fst (failed_to_start e (boot d w)), Inl (snd (failed_to_start e (boot d w))))"
  using assms
  by (simp add: main_def Let_def init_def boot_def print_def prints_def split: prod.splits)

lemma main_started:
  assumes "query_devices env = Inr d" "from_pretrained env = None"
  shows "main env w =
    (case start_recording env (new_object default_model 16000 one_second (boot d w)) of
       None \<Rightarrow> None
     | Some (None, s) \<Rightarrow> Some (None, Inr s)
     | Some (Some e, s) \<Rightarrow>
         Some (fst (failed_to_start e s), Inr (snd (failed_to_start e s))))"
  using assms
  by (simp add: main_def Let_def init_def boot_def print_def prints_def
      split: prod.splits option.splits)

lemma join_thread_Nil: "join_thread [] s = s"
  by (simp add: join_thread_def split: option.splits)

lemma join_thread_exists:
  assumes "transcription_thread s \<noteq> None"
  shows "transcription_thread (join_thread evs s) \<noteq> None"
proof -
  from assms obtain pc where pc: "transcription_thread s = Some pc"
    by blast
  have "join_thread evs s = run evs s"
    by (simp add: join_thread_def pc)
  then show ?thesis
    using thread_exists_run [OF assms, of evs] by simp
qed

lemma recording_body_cause:
  "recording_body env s = None \<longleftrightarrow> input_stream env = None \<and> interrupt env = None"
proof (cases "input_stream env")
  case (Some e)
  then show ?thesis
    by (simp add: recording_body_open_fails)
next
  case None
  then show ?thesis
    by (cases "interrupt env")
       (simp_all add: recording_body_forever recording_body_interrupted)
qed

lemma recording_body_raised:
  assumes "input_stream env = Some e \<or> (input_stream env = None \<and> interrupt env = Some e)"
  shows "\<exists>s9. recording_body env s = Some (Some e, s9)"
  using assms by (auto simp: recording_body_open_fails recording_body_interrupted)

lemma main_exit_started:
  assumes "query_devices env = Inr d" "from_pretrained env = None"
    and "input_stream env = Some e \<or> (input_stream env = None \<and> interrupt env = Some e)"
  shows "\<exists>s. main env w =
      Some (case e of BaseException m \<Rightarrow> Some e | _ \<Rightarrow> None, Inr s) \<and>
    \<not> is_recording s \<and> transcription_thread s \<noteq> None \<and>
    loads s = Suc (loads w) \<and> opens s = Suc (opens w)"
proof -
  let ?s0 = "new_object default_model 16000 one_second (boot d w)"
  obtain s9 where b: "recording_body env ?s0 = Some (Some e, s9)"
    using recording_body_raised [OF assms(3)] by blast
  let ?sf = "stop_recording (joining env) (t_name env) (t_head env)
      (snd (except_clauses (Some e) s9))"
  note f = recording_body_frame [OF b]
  have th: "transcription_thread ?sf \<noteq> None"
  proof -
    have "transcription_thread ((snd (except_clauses (Some e) s9))\<lparr>is_recording := False\<rparr>) \<noteq> None"
      using f by (simp add: except_clauses_frame del: not_None_eq)
    then have "transcription_thread
        (join_thread (joining env) ((snd (except_clauses (Some e) s9))\<lparr>is_recording := False\<rparr>))
        \<noteq> None"
      by (rule join_thread_exists)
    then show ?thesis
      by (simp add: stop_recording_fields del: not_None_eq)
  qed
  have lo: "loads ?sf = Suc (loads w)" "opens ?sf = Suc (opens w)"
    using f
    by (simp_all add: stop_recording_fields except_clauses_frame new_object_def boot_def
        print_def prints_def)
  have nr: "\<not> is_recording ?sf"
    by (simp add: stop_recording_fields)
  have m: "main env w =
      Some (case e of BaseException m \<Rightarrow> Some e | _ \<Rightarrow> None, Inr ?sf)"
    unfolding main_started [OF assms(1,2)] start_recording_eq [OF b]
    by (cases e) (simp_all add: failed_to_start_def)
  show ?thesis
    using m nr th lo by blast
qed


subsection \<open>The attribute full\_transcription is never read\<close>

lemma full_transcription_outward:
  "s\<lparr>full_transcription := v, is_recording := b\<rparr> = s\<lparr>is_recording := b, full_transcription := v\<rparr>"
  "s\<lparr>full_transcription := v, transcription_thread := t\<rparr> =
     s\<lparr>transcription_thread := t, full_transcription := v\<rparr>"
  "s\<lparr>full_transcription := v, opens := n\<rparr> = s\<lparr>opens := n, full_transcription := v\<rparr>"
  "s\<lparr>full_transcription := v, stream_active := a\<rparr> = s\<lparr>stream_active := a, full_transcription := v\<rparr>"
  "s\<lparr>full_transcription := v, mem := m\<rparr> = s\<lparr>mem := m, full_transcription := v\<rparr>"
  "s\<lparr>full_transcription := v, console := c\<rparr> = s\<lparr>console := c, full_transcription := v\<rparr>"
  "s\<lparr>full_transcription := v, files := f\<rparr> = s\<lparr>files := f, full_transcription := v\<rparr>"
  by simp_all

lemma audio_callback_indep:
  "audio_callback a st (s\<lparr>full_transcription := v\<rparr>) =
     (fst (audio_callback a st s), (snd (audio_callback a st s))\<lparr>full_transcription := v\<rparr>)"
  by (cases st)
     (simp_all add: audio_callback_def np_copy_def queue_put_def print_def Let_def)

lemma display_transcription_indep:
  "display_transcription now (s\<lparr>full_transcription := v\<rparr>) =
     (display_transcription now s)\<lparr>full_transcription := v\<rparr>"
  by (simp add: display_transcription_def)

lemma worker_step_indep:
  "transcription_worker_step oc now (s\<lparr>full_transcription := v\<rparr>) =
     (transcription_worker_step oc now s)\<lparr>full_transcription := v\<rparr>"
proof (cases "transcription_thread s")
  case None
  then show ?thesis by (simp add: transcription_worker_step_def)
next
  case (Some pc)
  then show ?thesis
    by (cases pc)
       (simp_all add: transcription_worker_step_def display_transcription_def print_def Let_def
          split: list.splits outcome.splits)
qed

lemma step_indep:
  "step ev (s\<lparr>full_transcription := v\<rparr>) = (step ev s)\<lparr>full_transcription := v\<rparr>"
proof (cases ev)
  case (Callback k arr st)
  then show ?thesis
    by (simp add: full_transcription_outward audio_callback_indep)
next
  case (Worker oc now)
  then show ?thesis by (simp add: worker_step_indep)
qed

lemma run_indep:
  "run evs (s\<lparr>full_transcription := v\<rparr>) = (run evs s)\<lparr>full_transcription := v\<rparr>"
  by (induction evs arbitrary: s) (simp_all add: step_indep)

lemma join_thread_indep:
  "join_thread evs (s\<lparr>full_transcription := v\<rparr>) =
     (join_thread evs s)\<lparr>full_transcription := v\<rparr>"
  by (simp add: join_thread_def run_indep split: option.splits)

lemma stop_recording_indep:
  "stop_recording evs tn th (s\<lparr>full_transcription := v\<rparr>) =
     (stop_recording evs tn th s)\<lparr>full_transcription := v\<rparr>"
  by (simp add: stop_recording_eq full_transcription_outward join_thread_indep)

lemma launch_indep:
  "launch env (s\<lparr>full_transcription := v\<rparr>) = (launch env s)\<lparr>full_transcription := v\<rparr>"
  by (simp add: launch_def Let_def prints_def full_transcription_outward run_indep)

lemma listening_indep:
  "listening env (s\<lparr>full_transcription := v\<rparr>) =
     (listening env s)\<lparr>full_transcription := v\<rparr>"
  by (simp add: listening_def Let_def print_def display_transcription_def)

lemma recording_body_indep:
  "recording_body env (s\<lparr>full_transcription := v\<rparr>) =
     map_option (\<lambda>r. (fst r, (snd r)\<lparr>full_transcription := v\<rparr>)) (recording_body env s)"
proof (cases "input_stream env")
  case (Some e)
  then show ?thesis
    by (simp add: recording_body_open_fails launch_indep full_transcription_outward)
next
  case None
  show ?thesis
  proof (cases "interrupt env")
    case inone: None
    then show ?thesis
      by (simp add: recording_body_forever None)
  next
    case (Some e)
    then show ?thesis
      by (simp add: recording_body_interrupted None launch_indep listening_indep run_indep
          full_transcription_outward)
  qed
qed

lemma except_clauses_indep:
  "except_clauses raised (s\<lparr>full_transcription := v\<rparr>) =
     (fst (except_clauses raised s), (snd (except_clauses raised s))\<lparr>full_transcription := v\<rparr>)"
  by (cases "(raised, s)" rule: except_clauses.cases) (simp_all add: print_def)

lemma start_recording_indep:
  "start_recording env (s\<lparr>full_transcription := v\<rparr>) =
     map_option (\<lambda>r. (fst r, (snd r)\<lparr>full_transcription := v\<rparr>)) (start_recording env s)"
proof (cases "recording_body env s")
  case None
  then show ?thesis
    by (simp add: start_recording_def recording_body_indep)
next
  case (Some r)
  obtain raised s9 where r: "r = (raised, s9)"
    by (cases r)
  have b: "recording_body env s = Some (raised, s9)"
    using Some r by simp
  have b': "recording_body env (s\<lparr>full_transcription := v\<rparr>) =
      Some (raised, s9\<lparr>full_transcription := v\<rparr>)"
    by (simp add: recording_body_indep b)
  show ?thesis
    unfolding start_recording_eq [OF b] start_recording_eq [OF b']
    by (simp add: except_clauses_indep stop_recording_indep)
qed

lemma start_recording_frame:
  assumes "start_recording env s = Some (p, s')"
  shows "full_transcription s' = full_transcription s"
proof -
  from assms obtain raised s9 where b: "recording_body env s = Some (raised, s9)"
    by (auto simp: start_recording_def split: option.splits)
  have "full_transcription s9 = full_transcription s"
    using recording_body_frame [OF b] by blast
  then show ?thesis
    using assms unfolding start_recording_eq [OF b]
    by (auto simp: stop_recording_fields except_clauses_frame)
qed

lemma failed_to_start_full:
  "full_transcription (snd (failed_to_start e s)) = full_transcription s"
  by (simp add: failed_to_start_def prints_def)

lemma final_state_full:
  assumes "final_state env w = Some s"
  shows "full_transcription s = []"
proof (cases "query_devices env")
  case (Inl e)
  then show ?thesis
    using assms by (simp add: final_state_def main_devices_fail)
next
  case (Inr d)
  show ?thesis
  proof (cases "from_pretrained env")
    case (Some e)
    then show ?thesis
      using assms by (simp add: final_state_def main_model_fails [OF Inr Some])
  next
    case None
    let ?s0 = "new_object default_model 16000 one_second (boot d w)"
    have z: "full_transcription ?s0 = []"
      by (simp add: new_object_def)
    show ?thesis
    proof (cases "start_recording env ?s0")
      case none: None
      then show ?thesis
        using assms by (simp add: final_state_def main_started [OF Inr None])
    next
      case (Some r)
      obtain p s' where r: "r = (p, s')"
        by (cases r)
      have f: "full_transcription s' = []"
        using start_recording_frame [of env ?s0 p s'] Some r z by simp
      show ?thesis
        using assms Some r f
        by (cases p)
           (auto simp: final_state_def main_started [OF Inr None] failed_to_start_full)
    qed
  qed
qed

subsection \<open>Single steps, written out\<close>

lemma started_step_Returns:
  assumes "transcription_thread s = Some Started"
  shows "transcription_worker_step (Returns t) now s =
    (print (str ''Starting transcription worker...'') s)
      \<lparr>sessions := sessions s @ [Acquire stream_settings],
       transcription_thread := Some LoopHead\<rparr>"
  using assms by (simp add: transcription_worker_step_def print_def)

lemma callback_step:
  assumes "stream_active s" "ndim arr > 1 \<longrightarrow> has_column0 arr"
  shows "audio_queue (step (Callback k arr st) s) = audio_queue s @ [Obj (next_obj s)] \<and>
    transcription_thread (step (Callback k arr st) s) = transcription_thread s \<and>
    current_text (step (Callback k arr st) s) = current_text s"
  using assms
  by (cases st)
     (simp_all add: audio_callback_def np_copy_def queue_put_def print_def Let_def)

lemma join_exit:
  assumes "transcription_thread s = Some LoopHead" "\<not> is_recording s"
  shows "join_thread [Worker oc now] s =
    s\<lparr>sessions := sessions s @ [Release], transcription_thread := Some Finished\<rparr>"
  using assms by (simp add: join_thread_def exit_step)

lemma stop_recording_files:
  "files (stop_recording evs tn th s) =
     (if has_text (current_text (join_thread evs (s\<lparr>is_recording := False\<rparr>)))
      then (files s)(transcript_name tn \<mapsto>
             transcript_header th @ current_text (join_thread evs (s\<lparr>is_recording := False\<rparr>)))
      else files s)"
  by (simp add: stop_recording_eq join_thread_frame)

subsection \<open>What has been printed stays printed\<close>






subsection \<open>Time\<close>

lemma ends_after_ended:
  assumes "has_ended (transcription_thread s)"
  shows "ends_after tws s = Some 0"
  using assms by (cases tws) auto

lemma thread_join_ended:
  assumes "has_ended (transcription_thread s)"
  shows "thread_join b tws s = ([], 0)"
  using assms by (cases tws) auto

lemma thread_join_bound: "snd (thread_join b tws s) \<le> b"
proof (induction tws arbitrary: b s)
  case Nil
  show ?case
    by simp
next
  case (Cons tw tws)
  obtain d oc now where tw: "tw = (d, oc, now)"
    by (cases tw) auto
  show ?case
  proof (cases "\<not> has_ended (transcription_thread s) \<and> step_time d s \<le> b")
    case True
    from Cons.IH [of "b - step_time d s" "transcription_worker_step oc now s"] True
    show ?thesis
      by (auto simp: tw split: prod.splits)
  next
    case False
    then show ?thesis
      by (auto simp: tw)
  qed
qed

lemma step_time_frame:
  "step_time d (s\<lparr>is_recording := b\<rparr>) = step_time d s"
  by (simp add: step_time_def split: option.splits worker_pc.splits)

lemma step_time_in_loop:
  assumes "transcription_thread s = Some LoopHead \<or> transcription_thread s = Some Waiting"
  shows "step_time d s =
    (if transcription_thread s = Some LoopHead then 0
     else case audio_queue s of [] \<Rightarrow> pop_timeout | a # q \<Rightarrow> d)"
  using assms by (auto simp: step_time_def)

text \<open>
  A worker in its loop, the flag cleared: what its next two steps are, by whether it
  stands at the loop condition or in \<open>get\<close>.
\<close>

lemma stopped_two_steps:
  assumes "transcription_thread s = Some LoopHead \<or> transcription_thread s = Some Waiting"
    and "\<not> is_recording s"
  shows "(transcription_thread s = Some LoopHead \<and>
          has_ended (transcription_thread (transcription_worker_step oc now s))) \<or>
         (transcription_thread s = Some Waiting \<and>
          has_ended (transcription_thread (transcription_worker_step oc now s))) \<or>
         (transcription_thread s = Some Waiting \<and>
          transcription_thread (transcription_worker_step oc now s) = Some LoopHead \<and>
          has_ended (transcription_thread
            (transcription_worker_step oc' now' (transcription_worker_step oc now s))))"
  using assms(1)
proof
  assume h: "transcription_thread s = Some LoopHead"
  show ?thesis
    using h by (simp add: exit_step [OF h assms(2)])
next
  assume h: "transcription_thread s = Some Waiting"
  let ?m = "transcription_worker_step oc now s"
  have nr: "\<not> is_recording ?m"
    using assms(2) by (simp add: worker_step_frame)
  from get_step_pc [OF h, of oc now] show ?thesis
  proof
    assume l: "transcription_thread ?m = Some LoopHead"
    show ?thesis
      using h l by (simp add: exit_step [OF l nr])
  next
    assume "\<exists>e. transcription_thread ?m = Some (Crashed e)"
    then show ?thesis
      using h by auto
  qed
qed

lemma ends_after_stopped:
  assumes "transcription_thread s = Some LoopHead \<or> transcription_thread s = Some Waiting"
    and "\<not> is_recording s"
  shows "ends_after ((d, oc, now) # (d', oc', now') # rest) s = Some (step_time d s)"
proof -
  let ?m = "transcription_worker_step oc now s"
  have ne: "\<not> has_ended (transcription_thread s)"
    using assms(1) by auto
  from stopped_two_steps [OF assms, of oc now oc' now'] show ?thesis
  proof (elim disjE conjE)
    assume "has_ended (transcription_thread ?m)"
    then show ?thesis
      using ne by (simp add: ends_after_ended)
  next
    assume "transcription_thread s = Some Waiting" "has_ended (transcription_thread ?m)"
    then show ?thesis
      using ne by (simp add: ends_after_ended)
  next
    assume l: "transcription_thread ?m = Some LoopHead"
      and e: "has_ended (transcription_thread (transcription_worker_step oc' now' ?m))"
    have "step_time d' ?m = 0"
      using l by (simp add: step_time_def)
    then show ?thesis
      using ne l e by (simp add: ends_after_ended)
  qed
qed

lemma thread_join_stopped:
  assumes "transcription_thread s = Some LoopHead \<or> transcription_thread s = Some Waiting"
    and "\<not> is_recording s"
  shows "snd (thread_join b ((d, oc, now) # (d', oc', now') # rest) s) = min (step_time d s) b \<and>
    has_ended (transcription_thread
      (run (fst (thread_join b ((d, oc, now) # (d', oc', now') # rest) s)) s)) =
      (step_time d s \<le> b)"
proof (cases "step_time d s \<le> b")
  case False
  have ne: "\<not> has_ended (transcription_thread s)"
    using assms(1) by auto
  show ?thesis
    using False ne by simp
next
  case True
  let ?m = "transcription_worker_step oc now s"
  have ne: "\<not> has_ended (transcription_thread s)"
    using assms(1) by auto
  from stopped_two_steps [OF assms, of oc now oc' now'] show ?thesis
  proof (elim disjE conjE)
    assume "transcription_thread s = Some LoopHead" "has_ended (transcription_thread ?m)"
    then show ?thesis
      using ne True by (simp add: thread_join_ended)
  next
    assume "transcription_thread s = Some Waiting" "has_ended (transcription_thread ?m)"
    then show ?thesis
      using ne True by (simp add: thread_join_ended)
  next
    assume l: "transcription_thread ?m = Some LoopHead"
      and e: "has_ended (transcription_thread (transcription_worker_step oc' now' ?m))"
    have "step_time d' ?m = 0"
      using l by (simp add: step_time_def)
    then show ?thesis
      using ne l e True by (simp add: thread_join_ended)
  qed
qed

lemma stop_recording_timed_eq:
  assumes "transcription_thread s \<noteq> None"
  shows "stop_recording_timed tws tn th s =
    (stop_recording (fst (thread_join join_timeout tws (s\<lparr>is_recording := False\<rparr>))) tn th s,
     snd (thread_join join_timeout tws (s\<lparr>is_recording := False\<rparr>)))"
  using assms by (auto simp: stop_recording_timed_def split: prod.splits)

lemma stop_recording_timed_cases:
  "\<exists>evs. fst (stop_recording_timed tws tn th s) = stop_recording evs tn th s"
  by (auto simp: stop_recording_timed_def split: option.splits prod.splits)

lemma stop_recording_timed_bound:
  "snd (stop_recording_timed tws tn th s) \<le> join_timeout"
proof (cases "transcription_thread s")
  case None
  then show ?thesis
    by (simp add: stop_recording_timed_def)
next
  case (Some pc)
  then show ?thesis
    by (simp add: stop_recording_timed_eq thread_join_bound)
qed

lemma stop_recording_last_line:
  "last (console (stop_recording evs tn th s)) = Print ([10, 9989] @ str '' Session ended'')"
  by (simp add: stop_recording_eq)

section \<open>The claims\<close>

subsection \<open>C1: frames reach the recognizer in the order of their arrival\<close>

text \<open>
  Against claim C1 as it is stated. The recognizer is busy with earlier audio, and two
  frames are enqueued while the session is Recording. The session is stopped before
  the worker has taken them; the worker then leaves its loop, and the recognizer has
  seen neither frame.
\<close>

theorem C1_backlog_never_submitted:
  "queued backlog_at_stop = [Arr1 [1, 2], Arr1 [3, 4]] \<and>
   is_recording backlog_at_stop \<and>
   transcription_thread backlog_after_stop = Some Finished \<and>
   submitted backlog_after_stop = [] \<and>
   queued backlog_after_stop = [Arr1 [1, 2], Arr1 [3, 4]]"
proof -
  let ?evs = "[Callback 0 (Arr2 [[1], [2]]) None, Callback 0 (Arr2 [[3], [4]]) None]"
  have own: "queue_owned session_started" and act: "stream_active session_started"
    by (simp_all add: session_started_def queue_owned_def)
  have sub0: "submitted session_started = []" and q0: "queued session_started = []"
    and rec0: "is_recording session_started"
    and th0: "transcription_thread session_started = Some LoopHead"
    by (simp_all add: session_started_def queued_def)
  have sub1: "submitted backlog_at_stop = []"
    by (simp add: backlog_at_stop_def audio_callback_frame act sub0 del: run_Cons)
       (simp add: act audio_callback_frame sub0)
  have th1: "transcription_thread backlog_at_stop = Some LoopHead"
    by (simp add: backlog_at_stop_def act audio_callback_frame th0)
  have rec1: "is_recording backlog_at_stop"
    by (simp add: backlog_at_stop_def run_frame rec0 del: run_Cons)
  have "submitted backlog_at_stop @ queued backlog_at_stop =
      submitted session_started @ queued session_started @ pushed ?evs"
    unfolding backlog_at_stop_def using run_fifo [OF own act] by blast
  then have q1: "queued backlog_at_stop = [Arr1 [1, 2], Arr1 [3, 4]]"
    by (simp add: sub1 sub0 q0 pushed_def)
  let ?s = "backlog_at_stop\<lparr>is_recording := False\<rparr>"
  let ?f = "?s\<lparr>sessions := sessions ?s @ [Release], transcription_thread := Some Finished\<rparr>"
  have e: "transcription_worker_step (Returns []) noon ?s = ?f"
    by (simp add: exit_step th1)
  have f: "transcription_worker_step (Returns []) noon ?f = ?f"
    by (subst finished_step) simp_all
  have "run [Worker (Returns []) noon, Worker (Returns []) noon] ?s =
      transcription_worker_step (Returns []) noon (transcription_worker_step (Returns []) noon ?s)"
    by simp
  also have "\<dots> = transcription_worker_step (Returns []) noon ?f"
    by (simp only: e)
  also have "\<dots> = ?f"
    by (rule f)
  finally have j: "join_thread [Worker (Returns []) noon, Worker (Returns []) noon] ?s = ?f"
    by (simp add: join_thread_def th1 del: run_Cons)
  have "transcription_thread backlog_after_stop = Some Finished"
    and "submitted backlog_after_stop = []"
    and "queued backlog_after_stop = [Arr1 [1, 2], Arr1 [3, 4]]"
    using q1 by (simp_all add: backlog_after_stop_def stop_recording_fields j sub1 queued_def)
  with q1 rec1 show ?thesis
    by simp
qed

text \<open>
  Claim C1, as the code has it. Throughout a session with an open stream, whatever the
  two threads do and in whatever order: the frames handed to the recognizer so far,
  followed by the frames still in the queue, are exactly the frames enqueued so far, in
  the order of their arrival. So frames are submitted in arrival order, none twice, none
  skipped, and the queue drops nothing however far the producer runs ahead. While the
  session is Recording, each round of the worker loop submits the oldest queued frame:
  a backlog of \<open>n\<close> frames is submitted by \<open>n\<close> rounds. Once the worker has left its
  loop nothing more is submitted: the frames then in the queue stay there.
\<close>

theorem C1_fifo_submission:
  assumes "queue_owned s" "stream_active s"
  shows "submitted (run evs s) @ queued (run evs s) = submitted s @ queued s @ pushed evs \<and>
    queue_owned (run evs s) \<and> stream_active (run evs s) \<and>
    (transcription_thread s = Some LoopHead \<and> is_recording s \<and>
     list_all (\<lambda>p. catchable (fst p)) ocs \<and> length ocs \<le> length (audio_queue s) \<longrightarrow>
       submitted (run (rounds ocs) s) = submitted s @ take (length ocs) (queued s) \<and>
       queued (run (rounds ocs) s) = drop (length ocs) (queued s)) \<and>
    submitted (run evs (s\<lparr>transcription_thread := Some Finished\<rparr>)) = submitted s \<and>
    transcription_thread (run evs (s\<lparr>transcription_thread := Some Finished\<rparr>)) =
      Some Finished"
proof -
  have 1: "submitted (run evs s) @ queued (run evs s) = submitted s @ queued s @ pushed evs"
    and own: "queue_owned (run evs s)"
    using run_fifo [OF assms] by blast+
  have act: "stream_active (run evs s)"
    using assms(2) by (simp add: run_frame)
  have 2: "submitted (run (rounds ocs) s) = submitted s @ take (length ocs) (queued s) \<and>
      queued (run (rounds ocs) s) = drop (length ocs) (queued s)"
    if "transcription_thread s = Some LoopHead" "is_recording s"
      "list_all (\<lambda>p. catchable (fst p)) ocs" "length ocs \<le> length (audio_queue s)"
    using rounds_fields [OF that] by (simp add: queued_def drop_map)
  have 3: "submitted (run evs (s\<lparr>transcription_thread := Some Finished\<rparr>)) = submitted s \<and>
      transcription_thread (run evs (s\<lparr>transcription_thread := Some Finished\<rparr>)) =
        Some Finished"
    using ended_run [of "s\<lparr>transcription_thread := Some Finished\<rparr>" evs] by simp
  show ?thesis
    using 1 own act 2 3 by blast
qed

text \<open>
  Claim C1 on the session with five frames waiting: a sixth arrives, and two rounds of the worker
  take the two oldest, the second with an error of the recognizer.
\<close>

theorem C1_fifo_submission_witness:
  "queue_owned session_with_backlog \<and> stream_active session_with_backlog \<and>
   transcription_thread session_with_backlog = Some LoopHead \<and>
   is_recording session_with_backlog \<and>
   list_all (\<lambda>p. catchable (fst p))
     [(Returns (str ''a''), noon), (Raises (Exception (str ''busy'')), noon)] \<and>
   length [(Returns (str ''a''), noon), (Raises (Exception (str ''busy'')), noon)]
     \<le> length (audio_queue session_with_backlog) \<and>
   submitted (run [Callback 0 (Arr2 [[7, 70], [8, 80]]) None] session_with_backlog) @
     queued (run [Callback 0 (Arr2 [[7, 70], [8, 80]]) None] session_with_backlog) =
     [Arr1 [0], Arr1 [1], Arr1 [2], Arr1 [3], Arr1 [4], Arr1 [7, 8]] \<and>
   submitted (run (rounds [(Returns (str ''a''), noon),
                           (Raises (Exception (str ''busy'')), noon)])
                session_with_backlog) = [Arr1 [0], Arr1 [1]] \<and>
   queued (run (rounds [(Returns (str ''a''), noon),
                        (Raises (Exception (str ''busy'')), noon)])
             session_with_backlog) = [Arr1 [2], Arr1 [3], Arr1 [4]]"
proof -
  let ?ocs = "[(Returns (str ''a''), noon), (Raises (Exception (str ''busy'')), noon)]"
  have h: "queue_owned session_with_backlog" "stream_active session_with_backlog"
    by (simp_all add: session_with_backlog_def queue_owned_def)
  have g: "transcription_thread session_with_backlog = Some LoopHead"
    "is_recording session_with_backlog"
    "list_all (\<lambda>p. catchable (fst p)) ?ocs"
    "length ?ocs \<le> length (audio_queue session_with_backlog)"
    by (simp_all add: session_with_backlog_def)
  have v: "submitted session_with_backlog = []"
    "queued session_with_backlog = [Arr1 [0], Arr1 [1], Arr1 [2], Arr1 [3], Arr1 [4]]"
    by (simp_all add: session_with_backlog_def queued_def)
  have p: "pushed [Callback 0 (Arr2 [[7, 70], [8, 80]]) None] = [Arr1 [7, 8 :: nat]]"
    by (simp add: pushed_def)
  note th = C1_fifo_submission [OF h, of "[Callback 0 (Arr2 [[7, 70], [8, 80]]) None]" ?ocs]
  have 1: "submitted (run [Callback 0 (Arr2 [[7, 70], [8, 80]]) None] session_with_backlog) @
     queued (run [Callback 0 (Arr2 [[7, 70], [8, 80]]) None] session_with_backlog) =
     [Arr1 [0], Arr1 [1], Arr1 [2], Arr1 [3], Arr1 [4], Arr1 [7, 8]]"
    using th unfolding v p by simp
  have 2: "submitted (run (rounds ?ocs) session_with_backlog) =
        submitted session_with_backlog @ take (length ?ocs) (queued session_with_backlog) \<and>
      queued (run (rounds ?ocs) session_with_backlog) =
        drop (length ?ocs) (queued session_with_backlog)"
    using th g by blast
  have 3: "submitted (run (rounds ?ocs) session_with_backlog) = [Arr1 [0], Arr1 [1]]"
    "queued (run (rounds ?ocs) session_with_backlog) = [Arr1 [2], Arr1 [3], Arr1 [4]]"
    using 2 unfolding v by simp_all
  show ?thesis
    using h g 1 3 by (simp only: simp_thms)
qed

subsection \<open>C2: the display is redrawn exactly when the hypothesis changes\<close>

lemma texts_hypotheses:
  "texts (map (\<lambda>p. (Returns (fst p), snd p)) hts) = map fst hts"
  by (induction hts) (simp_all add: texts_def)

text \<open>
  Claim C2. In the worker loop the display is redrawn after a frame if and only if the
  recognizer's new hypothesis differs from the text shown before. For every sequence of
  hypotheses, returned for as many queued frames while the session is Recording, the
  number of redraws equals the number of places where the hypothesis differs from the
  one before it, counted from the text that was current at the start; the last
  hypothesis is then the current text. And frame by frame: the round for the \<open>i\<close>-th
  hypothesis adds one redraw if that hypothesis differs from the text current before
  the round, and none if it is the same.
\<close>

theorem C2_render_on_change:
  assumes "transcription_thread s = Some LoopHead" "is_recording s"
    and "length hts \<le> length (audio_queue s)"
  shows "renders (run (hypotheses hts) s) = renders s + changes (current_text s) (map fst hts) \<and>
    current_text (run (hypotheses hts) s) = last (current_text s # map fst hts) \<and>
    (i < length hts \<longrightarrow>
       renders (run (hypotheses (take (Suc i) hts)) s) =
         (if fst (hts ! i) \<noteq> current_text (run (hypotheses (take i hts)) s)
          then Suc (renders (run (hypotheses (take i hts)) s))
          else renders (run (hypotheses (take i hts)) s)))"
proof -
  have r: "renders (run (hypotheses xs) s) = renders s + changes (current_text s) (map fst xs) \<and>
      current_text (run (hypotheses xs) s) = last (current_text s # map fst xs)"
    if "length xs \<le> length (audio_queue s)" for xs
  proof -
    have c: "list_all (\<lambda>p. catchable (fst p)) (map (\<lambda>p. (Returns (fst p), snd p)) xs)"
      by (simp add: list_all_iff)
    have l: "length (map (\<lambda>p. (Returns (fst p), snd p)) xs) \<le> length (audio_queue s)"
      using that by simp
    note f = rounds_fields [OF assms(1,2) c l, unfolded texts_hypotheses, folded hypotheses_def]
    then show ?thesis
      by blast
  qed
  have step: "renders (run (hypotheses (take (Suc i) hts)) s) =
         (if fst (hts ! i) \<noteq> current_text (run (hypotheses (take i hts)) s)
          then Suc (renders (run (hypotheses (take i hts)) s))
          else renders (run (hypotheses (take i hts)) s))"
    if i: "i < length hts"
  proof -
    have t: "map fst (take (Suc i) hts) = map fst (take i hts) @ [fst (hts ! i)]"
      using i by (simp add: take_Suc_conv_app_nth)
    have li: "length (take i hts) \<le> length (audio_queue s)"
      "length (take (Suc i) hts) \<le> length (audio_queue s)"
      using assms(3) i by simp_all
    have "renders (run (hypotheses (take (Suc i) hts)) s) =
        renders (run (hypotheses (take i hts)) s) +
        changes (current_text (run (hypotheses (take i hts)) s)) [fst (hts ! i)]"
      using r [OF li(1)] r [OF li(2)] unfolding t changes_append by simp
    then show ?thesis
      by simp
  qed
  show ?thesis
    using r [OF assms(3)] step by blast
qed

text \<open>
  Claim C2 on the hypotheses \<open>""\<close>, \<open>"hi"\<close>, \<open>"hi"\<close>, \<open>"hi there"\<close>, \<open>"hi there"\<close> on
  an empty current text: two redraws in all, and the second frame, the first \<open>"hi"\<close>,
  brings one of them.
\<close>

theorem C2_render_on_change_witness:
  "transcription_thread session_with_backlog = Some LoopHead \<and>
   is_recording session_with_backlog \<and>
   length [([], noon), (str ''hi'', noon), (str ''hi'', noon), (str ''hi there'', noon),
           (str ''hi there'', noon)] \<le> length (audio_queue session_with_backlog) \<and>
   1 < length [([], noon), (str ''hi'', noon), (str ''hi'', noon), (str ''hi there'', noon),
           (str ''hi there'', noon)] \<and>
   renders (run (hypotheses [([], noon), (str ''hi'', noon), (str ''hi'', noon),
                             (str ''hi there'', noon), (str ''hi there'', noon)])
              session_with_backlog) = 2 \<and>
   current_text (run (hypotheses [([], noon), (str ''hi'', noon), (str ''hi'', noon),
                             (str ''hi there'', noon), (str ''hi there'', noon)])
              session_with_backlog) = str ''hi there'' \<and>
   renders (run (hypotheses [([], noon), (str ''hi'', noon)]) session_with_backlog) =
     Suc (renders (run (hypotheses [([], noon)]) session_with_backlog))"
proof -
  let ?hts = "[([], noon), (str ''hi'', noon), (str ''hi'', noon), (str ''hi there'', noon),
               (str ''hi there'', noon)]"
  have h1: "transcription_thread session_with_backlog = Some LoopHead"
    and h2: "is_recording session_with_backlog"
    and h3: "length ?hts \<le> length (audio_queue session_with_backlog)"
    and h3': "length [([] :: pystr, noon)] \<le> length (audio_queue session_with_backlog)"
    and h4: "1 < length ?hts"
    and c0: "current_text session_with_backlog = []"
    and r0: "renders session_with_backlog = 0"
    by (simp_all add: session_with_backlog_def renders_def)
  have ch: "changes [] (map fst ?hts) = 2"
    by (simp add: str_def)
  note th = C2_render_on_change [OF h1 h2 h3, of 1]
  have 1: "renders (run (hypotheses ?hts) session_with_backlog) = 2"
    using th unfolding c0 r0 ch by simp
  have 2: "current_text (run (hypotheses ?hts) session_with_backlog) = str ''hi there''"
    using th unfolding c0 by simp
  have first: "current_text (run (hypotheses [([], noon)]) session_with_backlog) = []"
    using C2_render_on_change [OF h1 h2 h3', of 0] unfolding c0 by simp
  have "renders (run (hypotheses (take (Suc 1) ?hts)) session_with_backlog) =
         (if fst (?hts ! 1) \<noteq> current_text (run (hypotheses (take 1 ?hts)) session_with_backlog)
          then Suc (renders (run (hypotheses (take 1 ?hts)) session_with_backlog))
          else renders (run (hypotheses (take 1 ?hts)) session_with_backlog))"
    using th h4 by blast
  then have 3: "renders (run (hypotheses [([], noon), (str ''hi'', noon)]) session_with_backlog) =
     Suc (renders (run (hypotheses [([], noon)]) session_with_backlog))"
    by (simp add: first str_def)
  show ?thesis
    using h1 h2 h3 h4 1 2 3 by (simp only: simp_thms)
qed

subsection \<open>C3: an error of the recognizer on one frame does not end the session\<close>

text \<open>
  Claim C3. The session is Recording and the worker is at its loop condition; the
  recognizer answers the queued frames one by one and raises an error (an \<open>Exception\<close>)
  on one of them. Then the worker prints the error and nothing else for that frame (no
  redraw, the current text stays), and after the last round every queued frame has been
  handed to the recognizer, the session is still Recording and the worker is still in
  its loop. Redraws happen only for the answers that returned a text.
\<close>

theorem C3_frame_error_is_survived:
  assumes "transcription_thread s = Some LoopHead" "is_recording s"
    and "list_all (\<lambda>p. catchable (fst p)) before" "list_all (\<lambda>p. catchable (fst p)) after"
    and "length before + 1 + length after = length (audio_queue s)"
  shows
    "console (run (rounds (before @ [(Raises (Exception m), now)])) s) =
       console (run (rounds before) s) @ [Print (str ''Transcription error: '' @ m)] \<and>
     current_text (run (rounds (before @ [(Raises (Exception m), now)])) s) =
       current_text (run (rounds before) s) \<and>
     submitted (run (rounds (before @ [(Raises (Exception m), now)] @ after)) s) =
       submitted s @ queued s \<and>
     is_recording (run (rounds (before @ [(Raises (Exception m), now)] @ after)) s) \<and>
     transcription_thread (run (rounds (before @ [(Raises (Exception m), now)] @ after)) s) =
       Some LoopHead \<and>
     renders (run (rounds (before @ [(Raises (Exception m), now)] @ after)) s) =
       renders s + changes (current_text s) (texts before @ texts after)"
proof -
  let ?err = "(Raises (Exception m), now)"
  let ?b = "run (rounds before) s"
  have lb: "length before \<le> length (audio_queue s)"
    using assms(5) by simp
  note b = rounds_fields [OF assms(1,2,3) lb]
  have bq: "audio_queue ?b = drop (length before) (audio_queue s)"
    using b by blast
  then obtain a q where q: "audio_queue ?b = a # q"
    using assms(5) by (cases "drop (length before) (audio_queue s)") auto
  have bt: "transcription_thread ?b = Some LoopHead" and br: "is_recording ?b"
    using b by blast+
  have split: "rounds (before @ [?err]) = rounds before @ rounds [?err]"
    by (rule rounds_append)
  have one: "run (rounds (before @ [?err])) s =
      print (str ''Transcription error: '' @ m)
        (?b\<lparr>audio_queue := q, submitted := submitted ?b @ [mem ?b a]\<rparr>)"
    unfolding split run_append by (rule round_Raises [OF bt br q])
  have all: "list_all (\<lambda>p. catchable (fst p)) (before @ [?err] @ after)"
    using assms(3,4) by simp
  have len: "length (before @ [?err] @ after) \<le> length (audio_queue s)"
    using assms(5) by simp
  note w = rounds_fields [OF assms(1,2) all len]
  have tx: "texts (before @ ?err # after) = texts before @ texts after"
    by (simp add: texts_def)
  have tk: "length (queued s) = Suc (length before + length after)"
    using assms(5) by (simp add: queued_def)
  show ?thesis
    using w by (simp add: one print_def tx tk del: rounds.simps)
qed

text \<open>
  Claim C3 on the session with five frames waiting: the recognizer fails on the third
  frame. All five frames are submitted, and the three changes of the text are redrawn.
\<close>

theorem C3_frame_error_is_survived_witness:
  "transcription_thread session_with_backlog = Some LoopHead \<and>
   is_recording session_with_backlog \<and>
   list_all (\<lambda>p. catchable (fst p)) [(Returns (str ''a''), noon), (Returns (str ''a b''), noon)] \<and>
   list_all (\<lambda>p. catchable (fst p)) [(Returns (str ''a b''), noon), (Returns (str ''a b c''), noon)] \<and>
   length [(Returns (str ''a''), noon), (Returns (str ''a b''), noon)] + 1 +
     length [(Returns (str ''a b''), noon), (Returns (str ''a b c''), noon)] =
     length (audio_queue session_with_backlog) \<and>
   submitted (run (rounds ([(Returns (str ''a''), noon), (Returns (str ''a b''), noon)] @
       [(Raises (Exception (str ''bad frame'')), noon)] @
       [(Returns (str ''a b''), noon), (Returns (str ''a b c''), noon)])) session_with_backlog) =
     [Arr1 [0], Arr1 [1], Arr1 [2], Arr1 [3], Arr1 [4]] \<and>
   is_recording (run (rounds ([(Returns (str ''a''), noon), (Returns (str ''a b''), noon)] @
       [(Raises (Exception (str ''bad frame'')), noon)] @
       [(Returns (str ''a b''), noon), (Returns (str ''a b c''), noon)])) session_with_backlog) \<and>
   renders (run (rounds ([(Returns (str ''a''), noon), (Returns (str ''a b''), noon)] @
       [(Raises (Exception (str ''bad frame'')), noon)] @
       [(Returns (str ''a b''), noon), (Returns (str ''a b c''), noon)])) session_with_backlog) = 3"
proof -
  let ?before = "[(Returns (str ''a''), noon), (Returns (str ''a b''), noon)]"
  let ?after = "[(Returns (str ''a b''), noon), (Returns (str ''a b c''), noon)]"
  have h: "transcription_thread session_with_backlog = Some LoopHead"
    "is_recording session_with_backlog"
    "list_all (\<lambda>p. catchable (fst p)) ?before" "list_all (\<lambda>p. catchable (fst p)) ?after"
    "length ?before + 1 + length ?after = length (audio_queue session_with_backlog)"
    by (simp_all add: session_with_backlog_def)
  have v: "submitted session_with_backlog = []"
    "queued session_with_backlog = [Arr1 [0], Arr1 [1], Arr1 [2], Arr1 [3], Arr1 [4]]"
    "renders session_with_backlog = 0" "current_text session_with_backlog = []"
    by (simp_all add: session_with_backlog_def queued_def renders_def)
  have ch: "changes [] (texts ?before @ texts ?after) = 3"
    by (simp add: texts_def str_def)
  show ?thesis
    using C3_frame_error_is_survived [OF h, of "str ''bad frame''" noon]
    by (simp only: h v ch) simp
qed

subsection \<open>C4: what stop\_recording writes\<close>

text \<open>
  Against claim C4 as it is stated. A transcript of two blanks is not empty, and no file is written for it. And a file
  that already has the name to be written is replaced.
\<close>

theorem C4_blank_transcript_not_saved:
  "current_text blank_transcript = [32, 32] \<and>
   current_text blank_transcript \<noteq> [] \<and>
   files (stop_recording [] noon noon blank_transcript) = Map.empty \<and>
   files second_run (transcript_name noon) = Some (str ''an earlier transcript'') \<and>
   files (stop_recording [] noon noon second_run) (transcript_name noon) =
     Some (transcript_header noon @ str ''hello world'')"
proof -
  have j: "join_thread [] s = s" for s :: "nat live_transcriber"
    by (simp add: join_thread_def split: option.splits)
  have 1: "current_text blank_transcript = [32, 32]" "files blank_transcript = Map.empty"
    by (simp_all add: blank_transcript_def session_started_def)
  have 2: "\<not> has_text [32, 32]"
    by (simp add: has_text_def isspace_def)
  have 3: "files (stop_recording [] noon noon blank_transcript) = Map.empty"
    by (simp add: stop_recording_eq j 1 2)
  have 4: "current_text second_run = str ''hello world''"
    "files second_run = [transcript_name noon \<mapsto> str ''an earlier transcript'']"
    by (simp_all add: second_run_def)
  have 5: "has_text (str ''hello world'')"
    by (simp add: has_text_def isspace_def str_def)
  have 6: "files (stop_recording [] noon noon second_run) (transcript_name noon) =
      Some (transcript_header noon @ str ''hello world'')"
    by (simp add: stop_recording_eq j 4 5)
  show ?thesis
    using 1 3 4 6 by simp
qed

text \<open>
  Claim C4, as the code has it. \<open>stop_recording\<close> clears the flag, waits for the
  worker, and then looks at the current text, the final transcript. If the transcript
  has a character that is not white space, the file
  \<open>lecture_transcription_<YYYYMMDD_HHMMSS>.txt\<close> is opened for writing, which creates it
  or replaces the file of that name, and gets the header (\<open>Lecture Transcription - \<close>,
  the date and time, a line of sixty \<open>=\<close>, an empty line) followed by exactly the
  transcript; no other file changes, and two lines are printed. If the transcript is
  empty or all white space, no file changes, and apart from the cleared flag and what
  the worker did during the join the only change is the line \<open>Session ended\<close>.
\<close>

theorem C4_transcript_file:
  "stop_recording evs tn th s =
     (if has_text (current_text (join_thread evs (s\<lparr>is_recording := False\<rparr>)))
      then (join_thread evs (s\<lparr>is_recording := False\<rparr>))
             \<lparr>console := console (join_thread evs (s\<lparr>is_recording := False\<rparr>)) @
                [Print ([10, 128190] @ str '' Transcription saved to: '' @ transcript_name tn),
                 Print ([10, 9989] @ str '' Session ended'')],
              files := (files s)(transcript_name tn \<mapsto>
                transcript_header th @
                current_text (join_thread evs (s\<lparr>is_recording := False\<rparr>)))\<rparr>
      else (join_thread evs (s\<lparr>is_recording := False\<rparr>))
             \<lparr>console := console (join_thread evs (s\<lparr>is_recording := False\<rparr>)) @
                [Print ([10, 9989] @ str '' Session ended'')]\<rparr>) \<and>
   files (join_thread evs (s\<lparr>is_recording := False\<rparr>)) = files s \<and>
   has_text t = (\<exists>c. c \<in> set t \<and> \<not> isspace c) \<and>
   transcript_name tn =
     str ''lecture_transcription_'' @
     pad4 (year tn) @ pad2 (month tn) @ pad2 (day tn) @ str ''_'' @
     pad2 (hour tn) @ pad2 (minute tn) @ pad2 (second tn) @ str ''.txt'' \<and>
   transcript_header th =
     str ''Lecture Transcription - '' @
     pad4 (year th) @ str ''-'' @ pad2 (month th) @ str ''-'' @ pad2 (day th) @ str '' '' @
     pad2 (hour th) @ str '':'' @ pad2 (minute th) @ str '':'' @ pad2 (second th) @
     [10] @ replicate 60 61 @ [10, 10]"
proof -
  have 1: "has_text t = (\<exists>c. c \<in> set t \<and> \<not> isspace c)"
    by (auto simp: has_text_def list_ex_iff)
  have 2: "files (join_thread evs (s\<lparr>is_recording := False\<rparr>)) = files s"
    by (simp add: join_thread_frame)
  have 3: "transcript_name tn =
     str ''lecture_transcription_'' @
     pad4 (year tn) @ pad2 (month tn) @ pad2 (day tn) @ str ''_'' @
     pad2 (hour tn) @ pad2 (minute tn) @ pad2 (second tn) @ str ''.txt''"
    by (simp add: transcript_name_def strftime_compact_def)
  have 4: "transcript_header th =
     str ''Lecture Transcription - '' @
     pad4 (year th) @ str ''-'' @ pad2 (month th) @ str ''-'' @ pad2 (day th) @ str '' '' @
     pad2 (hour th) @ str '':'' @ pad2 (minute th) @ str '':'' @ pad2 (second th) @
     [10] @ replicate 60 61 @ [10, 10]"
    by (simp add: transcript_header_def strftime_long_def)
  show ?thesis
    by (rule conjI [OF stop_recording_eq conjI [OF 2 conjI [OF 1 conjI [OF 3 4]]]])
qed

text \<open>
  Claim C4 on the transcript \<open>hello world\<close>, stopped on 17 May 2024 at noon: the file
  \<open>lecture_transcription_20240517_120000.txt\<close> holds the header and then
  \<open>hello world\<close>.
\<close>

theorem C4_transcript_file_witness:
  "files (stop_recording [] noon noon second_run)
     (str ''lecture_transcription_20240517_120000.txt'') =
   Some (str ''Lecture Transcription - 2024-05-17 12:00:00'' @ [10] @
         str ''============================================================'' @ [10, 10] @
         str ''hello world'')"
proof -
  have j: "join_thread [] (second_run\<lparr>is_recording := False\<rparr>) =
      second_run\<lparr>is_recording := False\<rparr>"
    by (simp add: join_thread_def split: option.splits)
  have 4: "current_text (second_run\<lparr>is_recording := False\<rparr>) = str ''hello world''"
    by (simp add: second_run_def)
  have 5: "has_text (str ''hello world'')"
    by (simp add: has_text_def isspace_def str_def)
  have n: "transcript_name noon = str ''lecture_transcription_20240517_120000.txt''"
    by (simp add: transcript_name_def strftime_compact_def noon_def pad2_def pad4_def
        digit_def str_def)
  have r: "replicate 60 (61::nat) =
      str ''============================================================''"
    by code_simp
  have hd: "transcript_header noon =
      str ''Lecture Transcription - 2024-05-17 12:00:00'' @ [10] @
      str ''============================================================'' @ [10, 10]"
    unfolding r [symmetric]
    by (simp add: transcript_header_def strftime_long_def noon_def pad2_def pad4_def
        digit_def str_def)
  have "stop_recording [] noon noon second_run =
      (second_run\<lparr>is_recording := False\<rparr>)
        \<lparr>console := console (second_run\<lparr>is_recording := False\<rparr>) @
           [Print ([10, 128190] @ str '' Transcription saved to: '' @ transcript_name noon),
            Print ([10, 9989] @ str '' Session ended'')],
         files := (files second_run)(transcript_name noon \<mapsto>
           transcript_header noon @ str ''hello world'')\<rparr>"
    using C4_transcript_file [of "[]" noon noon second_run "[]"]
    unfolding j 4 using 5 by simp
  then have "files (stop_recording [] noon noon second_run) (transcript_name noon) =
      Some (transcript_header noon @ str ''hello world'')"
    by simp
  then show ?thesis
    unfolding n hd by simp
qed

subsection \<open>C5: setup failures and the exit status\<close>




subsection \<open>C6: how long the worker runs once the flag is cleared, and how long the controller waits\<close>

text \<open>
  Against claim C6 as it is stated. The flag is read at the loop condition only, not
  in the loop body. A worker that has passed the condition when the flag is cleared,
  with a frame in the queue, takes the frame and hands it to the recognizer; it comes
  back to the condition when the recognizer has answered, here after 500 ms, which is
  more than the 100 ms of the timeout of \<open>get\<close>. By then the frame has been submitted,
  the text has changed and the display has been redrawn, all after the flag was cleared.
\<close>

theorem C6_frame_taken_after_stop:
  "transcription_thread stopped_in_get = Some Waiting \<and>
   is_recording stopped_in_get = False \<and>
   stream_active stopped_in_get = False \<and>
   ends_after [(500, Returns (str ''late''), noon), (0, Returns [], noon)] stopped_in_get =
     Some 500 \<and>
   pop_timeout < 500 \<and>
   submitted stopped_in_get = [] \<and>
   submitted (run [Worker (Returns (str ''late'')) noon] stopped_in_get) = [Arr1 [0]] \<and>
   current_text (run [Worker (Returns (str ''late'')) noon] stopped_in_get) = str ''late'' \<and>
   renders (run [Worker (Returns (str ''late'')) noon] stopped_in_get) = 1"
proof -
  have c: "transcription_worker_step (Returns []) noon session_with_backlog =
      session_with_backlog\<lparr>transcription_thread := Some Waiting\<rparr>"
    by (rule check_step) (simp_all add: session_with_backlog_def)
  have w: "transcription_thread stopped_in_get = Some Waiting"
    and r: "is_recording stopped_in_get = False"
    and a: "stream_active stopped_in_get = False"
    and q: "audio_queue stopped_in_get = Obj 0 # [Obj 1, Obj 2, Obj 3, Obj 4]"
    and m: "mem stopped_in_get (Obj 0) = Arr1 [0]"
    and s0: "submitted stopped_in_get = []"
    and t0: "current_text stopped_in_get = []"
    and c0: "console stopped_in_get = []"
    unfolding stopped_in_get_def c by (simp_all add: session_with_backlog_def)
  have l: "transcription_thread stopped_in_get = Some LoopHead \<or>
      transcription_thread stopped_in_get = Some Waiting"
    using w by simp
  have nr: "\<not> is_recording stopped_in_get"
    using r by simp
  have st: "step_time 500 stopped_in_get = 500"
    by (simp add: step_time_def w q)
  have 1: "ends_after [(500, Returns (str ''late''), noon), (0, Returns [], noon)] stopped_in_get =
      Some 500"
    unfolding ends_after_stopped [OF l nr] st ..
  have 2: "pop_timeout < 500"
    by (simp add: pop_timeout_def)
  have ne: "str ''late'' \<noteq> current_text stopped_in_get"
    by (simp add: t0 str_def)
  have g: "run [Worker (Returns (str ''late'')) noon] stopped_in_get =
      (display_transcription noon
         (stopped_in_get\<lparr>audio_queue := [Obj 1, Obj 2, Obj 3, Obj 4],
            submitted := submitted stopped_in_get @ [mem stopped_in_get (Obj 0)],
            current_text := str ''late''\<rparr>))
        \<lparr>transcription_thread := Some LoopHead\<rparr>"
    using ne by (simp add: get_step_Returns [OF w q])
  have 3: "submitted (run [Worker (Returns (str ''late'')) noon] stopped_in_get) = [Arr1 [0]]"
    unfolding g by (simp add: display_transcription_def print_def s0 m)
  have 4: "current_text (run [Worker (Returns (str ''late'')) noon] stopped_in_get) = str ''late''"
    unfolding g by (simp add: display_transcription_def print_def)
  have 5: "renders (run [Worker (Returns (str ''late'')) noon] stopped_in_get) = 1"
    unfolding g by (simp add: display_transcription_def print_def renders_def c0)
  show ?thesis
    using w r a 1 2 s0 3 4 5 by (simp only: simp_thms)
qed

text \<open>
  Claim C6, as the code has it, with the time in milliseconds. A \<open>get\<close> on an empty
  queue returns after its timeout of 100 ms, with \<open>queue.Empty\<close>, and changes nothing:
  the worker does not wait for a frame for ever. Once the recording flag is false, a
  worker in its loop ends with the loop body it is in: at once when it stands at the
  loop condition, after the 100 ms of the timeout when it is in \<open>get\<close> on an empty
  queue, and, when it is in \<open>get\<close> and a frame is queued, after the time \<open>d\<close> the
  recognizer takes for that one frame, which no timeout bounds; it takes at most this
  one frame more. \<open>stop_recording\<close> waits in \<open>join\<close> for at most 2000 ms, whatever the
  worker does, and then goes on whether or not the worker has ended: the flag is
  cleared, the transcript is written if the text then current is not blank, and
  \<open>Session ended\<close> is printed. With a worker that makes no progress it waits the whole
  2000 ms and the worker is where it was. With a worker that goes on, it waits for the
  time the worker's loop body takes or for 2000 ms, whichever is less, and the worker
  has ended if and only if its loop body took no more than 2000 ms; on an empty queue
  that is after at most 100 ms, with the worker ended.
\<close>

theorem C6_worker_ends_and_join_is_bounded:
  assumes "transcription_thread s = Some LoopHead \<or> transcription_thread s = Some Waiting"
  shows
    "transcription_worker_step oc now (s\<lparr>transcription_thread := Some Waiting, audio_queue := []\<rparr>) =
       s\<lparr>transcription_thread := Some LoopHead, audio_queue := []\<rparr> \<and>
     step_time d (s\<lparr>transcription_thread := Some Waiting, audio_queue := []\<rparr>) = pop_timeout \<and>
     step_time d s =
       (if transcription_thread s = Some LoopHead then 0
        else case audio_queue s of [] \<Rightarrow> pop_timeout | a # q \<Rightarrow> d) \<and>
     ends_after ((d, oc, now) # (d', oc', now') # rest) (s\<lparr>is_recording := False\<rparr>) =
       Some (step_time d s) \<and>
     length (audio_queue s) \<le>
       Suc (length (audio_queue (run [Worker oc now, Worker oc' now'] (s\<lparr>is_recording := False\<rparr>)))) \<and>
     snd (stop_recording_timed tws tn th s) \<le> join_timeout \<and>
     is_recording (fst (stop_recording_timed tws tn th s)) = False \<and>
     files (fst (stop_recording_timed tws tn th s)) =
       (if has_text (current_text (fst (stop_recording_timed tws tn th s)))
        then (files s)(transcript_name tn \<mapsto>
               transcript_header th @ current_text (fst (stop_recording_timed tws tn th s)))
        else files s) \<and>
     last (console (fst (stop_recording_timed tws tn th s))) =
       Print ([10, 9989] @ str '' Session ended'') \<and>
     stop_recording_timed [] tn th s = (stop_recording [] tn th s, join_timeout) \<and>
     transcription_thread (stop_recording [] tn th s) = transcription_thread s \<and>
     current_text (stop_recording [] tn th s) = current_text s \<and>
     snd (stop_recording_timed ((d, oc, now) # (d', oc', now') # rest) tn th s) =
       min (step_time d s) join_timeout \<and>
     has_ended (transcription_thread
       (fst (stop_recording_timed ((d, oc, now) # (d', oc', now') # rest) tn th s))) =
       (step_time d s \<le> join_timeout) \<and>
     snd (stop_recording_timed ((d, oc, now) # (d', oc', now') # rest) tn th
            (s\<lparr>audio_queue := []\<rparr>)) \<le> pop_timeout \<and>
     has_ended (transcription_thread
       (fst (stop_recording_timed ((d, oc, now) # (d', oc', now') # rest) tn th
          (s\<lparr>audio_queue := []\<rparr>))))"
proof -
  let ?s = "s\<lparr>is_recording := False\<rparr>"
  let ?sched = "(d, oc, now) # (d', oc', now') # rest"
  have l: "transcription_thread ?s = Some LoopHead \<or> transcription_thread ?s = Some Waiting"
    using assms by simp
  have nr: "\<not> is_recording ?s"
    by simp
  have ex: "transcription_thread s \<noteq> None"
    using assms by auto
  have 1: "transcription_worker_step oc now (s\<lparr>transcription_thread := Some Waiting, audio_queue := []\<rparr>) =
      s\<lparr>transcription_thread := Some LoopHead, audio_queue := []\<rparr>"
    by (subst empty_get_step) simp_all
  have 2: "step_time d (s\<lparr>transcription_thread := Some Waiting, audio_queue := []\<rparr>) = pop_timeout"
    by (simp add: step_time_def)
  note 3 = step_time_in_loop [OF assms, of d]
  have 4: "ends_after ?sched ?s = Some (step_time d s)"
    unfolding ends_after_stopped [OF l nr] step_time_frame ..
  have 5: "length (audio_queue s) \<le>
      Suc (length (audio_queue (run [Worker oc now, Worker oc' now'] ?s)))"
  proof -
    let ?m = "transcription_worker_step oc now ?s"
    have len: "length (audio_queue s) \<le> Suc (length (audio_queue ?m))"
      using worker_step_queue_length [of ?s oc now] by simp
    from stopped_two_steps [OF l nr, of oc now oc' now'] show ?thesis
    proof (elim disjE conjE)
      assume h: "transcription_thread ?s = Some LoopHead"
      have e: "?m = ?s\<lparr>sessions := sessions ?s @ [Release], transcription_thread := Some Finished\<rparr>"
        by (rule exit_step [OF h nr])
      have "transcription_worker_step oc' now' ?m = ?m"
        by (rule finished_step) (simp add: e)
      then show ?thesis
        using len by simp
    next
      assume "transcription_thread ?s = Some Waiting" "has_ended (transcription_thread ?m)"
      then have "transcription_thread ?m = Some Finished \<or>
          (\<exists>e. transcription_thread ?m = Some (Crashed e))"
        by (cases "transcription_thread ?m" rule: has_ended.cases) simp_all
      then have "transcription_worker_step oc' now' ?m = ?m"
        using finished_step [of ?m] crashed_step [of ?m] by blast
      then show ?thesis
        using len by simp
    next
      assume h: "transcription_thread ?m = Some LoopHead"
      have nr': "\<not> is_recording ?m"
        by (simp add: worker_step_frame)
      have "transcription_worker_step oc' now' ?m =
          ?m\<lparr>sessions := sessions ?m @ [Release], transcription_thread := Some Finished\<rparr>"
        by (rule exit_step [OF h nr'])
      then show ?thesis
        using len by simp
    qed
  qed
  note 6 = stop_recording_timed_bound [of tws tn th s]
  obtain evs where evs: "fst (stop_recording_timed tws tn th s) = stop_recording evs tn th s"
    using stop_recording_timed_cases by blast
  have 7: "is_recording (fst (stop_recording_timed tws tn th s)) = False"
    unfolding evs by (simp add: stop_recording_fields)
  have 8: "files (fst (stop_recording_timed tws tn th s)) =
       (if has_text (current_text (fst (stop_recording_timed tws tn th s)))
        then (files s)(transcript_name tn \<mapsto>
               transcript_header th @ current_text (fst (stop_recording_timed tws tn th s)))
        else files s)"
    unfolding evs stop_recording_files stop_recording_fields ..
  have 9: "last (console (fst (stop_recording_timed tws tn th s))) =
       Print ([10, 9989] @ str '' Session ended'')"
    unfolding evs by (rule stop_recording_last_line)
  have ne: "\<not> has_ended (transcription_thread ?s)"
    using assms by auto
  have 10: "stop_recording_timed [] tn th s = (stop_recording [] tn th s, join_timeout)"
    using ne by (simp add: stop_recording_timed_eq [OF ex])
  have 11: "transcription_thread (stop_recording [] tn th s) = transcription_thread s"
    by (simp add: stop_recording_fields join_thread_Nil)
  have 12: "current_text (stop_recording [] tn th s) = current_text s"
    by (simp add: stop_recording_fields join_thread_Nil)
  note tj = thread_join_stopped [OF l nr, of join_timeout d oc now d' oc' now' rest,
      unfolded step_time_frame]
  have 13: "snd (stop_recording_timed ?sched tn th s) = min (step_time d s) join_timeout"
    using tj by (simp add: stop_recording_timed_eq [OF ex])
  have jt: "join_thread evs' ?s = run evs' ?s" for evs'
    using assms by (auto simp: join_thread_def)
  have 14: "has_ended (transcription_thread (fst (stop_recording_timed ?sched tn th s))) =
      (step_time d s \<le> join_timeout)"
    using tj by (simp add: stop_recording_timed_eq [OF ex] stop_recording_fields jt)
  let ?e = "s\<lparr>audio_queue := []\<rparr>"
  let ?es = "?e\<lparr>is_recording := False\<rparr>"
  have le: "transcription_thread ?es = Some LoopHead \<or> transcription_thread ?es = Some Waiting"
    using assms by simp
  have nre: "\<not> is_recording ?es"
    by simp
  have exe: "transcription_thread ?e \<noteq> None"
    using assms by auto
  have ste: "step_time d ?e \<le> pop_timeout"
    using assms by (auto simp: step_time_def)
  have pj: "pop_timeout \<le> join_timeout"
    by (simp add: pop_timeout_def join_timeout_def)
  note tje = thread_join_stopped [OF le nre, of join_timeout d oc now d' oc' now' rest,
      unfolded step_time_frame]
  have 15: "snd (stop_recording_timed ?sched tn th ?e) \<le> pop_timeout"
    using tje ste by (simp add: stop_recording_timed_eq [OF exe])
  have jte: "join_thread evs' ?es = run evs' ?es" for evs'
    using assms by (auto simp: join_thread_def)
  have 16: "has_ended (transcription_thread (fst (stop_recording_timed ?sched tn th ?e)))"
    using tje ste pj by (simp add: stop_recording_timed_eq [OF exe] stop_recording_fields jte)
  show ?thesis
    using 1 2 3 4 5 6 7 8 9 10 11 12 13 14 15 16 by (simp only: simp_thms)
qed

text \<open>
  Claim C6 on the session that is stopped with five frames waiting and the worker in
  \<open>get\<close>, with a recognizer that takes 3000 ms for a frame: the worker ends after
  3000 ms, the controller waits 2000 ms and goes on with the worker still running, and
  the flag is cleared. Had the queue been empty, the controller would have waited no
  more than the 100 ms of the timeout of \<open>get\<close>, and the worker would have ended.
\<close>

theorem C6_worker_ends_and_join_is_bounded_witness:
  "transcription_thread stopped_in_get = Some Waiting \<and>
   ends_after [(3000, Returns (str ''late''), noon), (0, Returns [], noon)]
     (stopped_in_get\<lparr>is_recording := False\<rparr>) = Some 3000 \<and>
   snd (stop_recording_timed [(3000, Returns (str ''late''), noon), (0, Returns [], noon)]
          noon noon stopped_in_get) = 2000 \<and>
   has_ended (transcription_thread
     (fst (stop_recording_timed [(3000, Returns (str ''late''), noon), (0, Returns [], noon)]
        noon noon stopped_in_get))) = False \<and>
   is_recording (fst (stop_recording_timed [(3000, Returns (str ''late''), noon), (0, Returns [], noon)]
        noon noon stopped_in_get)) = False \<and>
   snd (stop_recording_timed [(3000, Returns (str ''late''), noon), (0, Returns [], noon)]
          noon noon (stopped_in_get\<lparr>audio_queue := []\<rparr>)) \<le> 100 \<and>
   has_ended (transcription_thread
     (fst (stop_recording_timed [(3000, Returns (str ''late''), noon), (0, Returns [], noon)]
        noon noon (stopped_in_get\<lparr>audio_queue := []\<rparr>))))"
proof -
  have c: "transcription_worker_step (Returns []) noon session_with_backlog =
      session_with_backlog\<lparr>transcription_thread := Some Waiting\<rparr>"
    by (rule check_step) (simp_all add: session_with_backlog_def)
  have w: "transcription_thread stopped_in_get = Some Waiting"
    and q: "audio_queue stopped_in_get = Obj 0 # [Obj 1, Obj 2, Obj 3, Obj 4]"
    unfolding stopped_in_get_def c by (simp_all add: session_with_backlog_def)
  have h: "transcription_thread stopped_in_get = Some LoopHead \<or>
      transcription_thread stopped_in_get = Some Waiting"
    using w by simp
  have st: "step_time 3000 stopped_in_get = 3000"
    by (simp add: step_time_def w q)
  note th = C6_worker_ends_and_join_is_bounded [OF h, of "Returns (str ''late'')" noon 3000
      0 "Returns []" noon "[]" "[]" noon noon, unfolded st]
  have 1: "ends_after [(3000, Returns (str ''late''), noon), (0, Returns [], noon)]
     (stopped_in_get\<lparr>is_recording := False\<rparr>) = Some 3000"
    using th by (elim conjE)
  have 2: "snd (stop_recording_timed [(3000, Returns (str ''late''), noon), (0, Returns [], noon)]
          noon noon stopped_in_get) = 2000"
    using th by (simp add: join_timeout_def)
  have 3: "has_ended (transcription_thread
     (fst (stop_recording_timed [(3000, Returns (str ''late''), noon), (0, Returns [], noon)]
        noon noon stopped_in_get))) = False"
    using th by (simp add: join_timeout_def)
  have 4: "is_recording (fst (stop_recording_timed [(3000, Returns (str ''late''), noon), (0, Returns [], noon)]
        noon noon stopped_in_get)) = False"
    using th by (simp add: stop_recording_timed_eq w stop_recording_fields)
  have 5: "snd (stop_recording_timed [(3000, Returns (str ''late''), noon), (0, Returns [], noon)]
          noon noon (stopped_in_get\<lparr>audio_queue := []\<rparr>)) \<le> 100"
    using th by (simp add: pop_timeout_def)
  have 6: "has_ended (transcription_thread
     (fst (stop_recording_timed [(3000, Returns (str ''late''), noon), (0, Returns [], noon)]
        noon noon (stopped_in_get\<lparr>audio_queue := []\<rparr>))))"
    using th by (elim conjE)
  show ?thesis
    using w 1 2 3 4 5 6 by (simp only: simp_thms)
qed

subsection \<open>C7: the worker's streaming session is scoped\<close>

text \<open>
  Claim C7. A worker thread that has been started enters one streaming session, with
  context size (256, 256), depth 1 and \<open>keep_original_attention=False\<close>, before its
  loop. Both ways out of the loop leave the \<open>with\<close> block and close the session: the
  loop condition found false, and an exception in the loop body that
  \<open>except Exception\<close> does not catch. Whatever the threads do, before and after the
  recording flag is changed, the session log of the recognizer is scoped: empty before
  the \<open>with\<close> block, that one session open while the worker is in its loop, and the
  same session closed once the worker has ended (the log is empty after the end only
  if entering the session itself raised).
\<close>

theorem C7_session_scoped:
  assumes "transcription_thread s = Some Started" "sessions s = []"
  shows "sessions (transcription_worker_step (Returns t) now s) =
      [Acquire \<lparr>context_size = (256, 256), depth = 1, keep_original_attention = False\<rparr>] \<and>
    scoped (run evs' ((run evs s)\<lparr>is_recording := b\<rparr>)) \<and>
    transcription_worker_step oc now' (s'\<lparr>is_recording := False, transcription_thread := Some LoopHead\<rparr>) =
      s'\<lparr>is_recording := False, sessions := sessions s' @ [Release],
         transcription_thread := Some Finished\<rparr> \<and>
    transcription_worker_step (Raises (BaseException m)) now'
        (s'\<lparr>audio_queue := a # q, transcription_thread := Some Waiting\<rparr>) =
      s'\<lparr>audio_queue := q, submitted := submitted s' @ [mem s' a],
         sessions := sessions s' @ [Release],
         transcription_thread := Some (Crashed (BaseException m))\<rparr>"
proof -
  have 1: "sessions (transcription_worker_step (Returns t) now s) =
      [Acquire \<lparr>context_size = (256, 256), depth = 1, keep_original_attention = False\<rparr>]"
    using assms by (simp add: transcription_worker_step_def print_def stream_settings_def)
  have "scoped s"
    using assms by (simp add: scoped_def)
  then have "scoped ((run evs s)\<lparr>is_recording := b\<rparr>)"
    by (simp add: scoped_flag scoped_run)
  then have 2: "scoped (run evs' ((run evs s)\<lparr>is_recording := b\<rparr>))"
    by (rule scoped_run)
  have 3: "transcription_worker_step oc now' (s'\<lparr>is_recording := False, transcription_thread := Some LoopHead\<rparr>) =
      s'\<lparr>is_recording := False, sessions := sessions s' @ [Release],
         transcription_thread := Some Finished\<rparr>"
    by (subst exit_step) simp_all
  have 4: "transcription_worker_step (Raises (BaseException m)) now'
        (s'\<lparr>audio_queue := a # q, transcription_thread := Some Waiting\<rparr>) =
      s'\<lparr>audio_queue := q, submitted := submitted s' @ [mem s' a],
         sessions := sessions s' @ [Release],
         transcription_thread := Some (Crashed (BaseException m))\<rparr>"
    by (simp add: transcription_worker_step_def)
  show ?thesis
    using 1 2 3 4 by blast
qed

text \<open>
  Claim C7 on one life of a worker: it enters its session and takes one frame; the flag is cleared; the
  worker ends.
\<close>

theorem C7_session_scoped_witness:
  "transcription_thread (session_started\<lparr>transcription_thread := Some Started, sessions := []\<rparr>)
     = Some Started \<and>
   sessions (session_started\<lparr>transcription_thread := Some Started, sessions := []\<rparr>) = [] \<and>
   transcription_thread (run [Worker (Returns []) noon]
     ((run [Worker (Returns []) noon, Callback 0 (Arr1 [1]) None, Worker (Returns []) noon,
            Worker (Returns (str ''hi'')) noon]
        (session_started\<lparr>transcription_thread := Some Started, sessions := []\<rparr>))
      \<lparr>is_recording := False\<rparr>)) = Some Finished \<and>
   sessions (run [Worker (Returns []) noon]
     ((run [Worker (Returns []) noon, Callback 0 (Arr1 [1]) None, Worker (Returns []) noon,
            Worker (Returns (str ''hi'')) noon]
        (session_started\<lparr>transcription_thread := Some Started, sessions := []\<rparr>))
      \<lparr>is_recording := False\<rparr>)) = [Acquire stream_settings, Release]"
proof -
  let ?s = "session_started\<lparr>transcription_thread := Some Started, sessions := []\<rparr>"
  let ?evs = "[Worker (Returns []) noon, Callback 0 (Arr1 [1]) None, Worker (Returns []) noon,
               Worker (Returns (str ''hi'')) noon]"
  have h: "transcription_thread ?s = Some Started" "sessions ?s = []"
    by simp_all
  have rec: "is_recording ?s"
    by (simp add: session_started_def)
  define s1 where "s1 = transcription_worker_step (Returns []) noon ?s"
  define s2 where "s2 = step (Callback 0 (Arr1 [1]) None) s1"
  define s3 where "s3 = transcription_worker_step (Returns []) noon s2"
  define s4 where "s4 = transcription_worker_step (Returns (str ''hi'')) noon s3"
  have r: "run ?evs ?s = s4"
    by (simp add: s1_def s2_def s3_def s4_def del: step.simps(1)) 
  have 1: "transcription_thread s1 = Some LoopHead" "is_recording s1"
    unfolding s1_def using h(1) rec by (simp_all add: started_step_pc worker_step_frame)
  have 2: "transcription_thread s2 = Some LoopHead" "is_recording s2"
    unfolding s2_def using 1 by (simp_all add: step_frame audio_callback_frame)
  have 3: "transcription_thread s3 = Some Waiting"
    unfolding s3_def by (simp add: check_step [OF 2])
  have 4: "transcription_thread s4 = Some LoopHead"
    unfolding s4_def by (rule get_step_catchable [OF 3]) simp
  have 5: "transcription_thread (run [Worker (Returns []) noon] (s4\<lparr>is_recording := False\<rparr>))
      = Some Finished"
    by (simp add: exit_step 4)
  have "scoped (run [Worker (Returns []) noon] ((run ?evs ?s)\<lparr>is_recording := False\<rparr>))"
    using C7_session_scoped [OF h, where evs = ?evs and evs' = "[Worker (Returns []) noon]"
        and b = False]
    by blast
  then have 6: "sessions (run [Worker (Returns []) noon] (s4\<lparr>is_recording := False\<rparr>)) =
      [Acquire stream_settings, Release]"
    unfolding r using 5 by (simp add: scoped_def del: run_Cons)
  show ?thesis
    using h 5 6 unfolding r by (simp only: simp_thms)
qed

subsection \<open>C8: the capture callback copies and enqueues, and does nothing else\<close>

text \<open>
  Claim C8. For every buffer the audio subsystem delivers (a one-dimensional buffer, or
  a two-dimensional one with at least one channel), the callback returns without an
  exception and has appended exactly one entry to the queue: a newly allocated array,
  distinct from the buffer, that holds channel 0 of the buffer if the buffer has more
  than one dimension and the buffer's content otherwise. The append needs no room and
  waits for nothing. The callback touches nothing of the recognition: the frames
  submitted, the streaming sessions, the current text, the recording flag and the
  worker are as before, and it redraws nothing. When the audio subsystem later refills
  the same buffer and calls again, the frame enqueued before is unchanged.
\<close>

theorem C8_callback_enqueues_mono_copy:
  assumes "ndim (mem s (Hw k)) > 1 \<longrightarrow> has_column0 (mem s (Hw k))"
  shows "fst (audio_callback (Hw k) st s) = None \<and>
    audio_queue (snd (audio_callback (Hw k) st s)) = audio_queue s @ [Obj (next_obj s)] \<and>
    Obj (next_obj s) \<noteq> Hw k \<and>
    mem (snd (audio_callback (Hw k) st s)) (Obj (next_obj s)) =
      (if ndim (mem s (Hw k)) > 1 then column0 (mem s (Hw k)) else mem s (Hw k)) \<and>
    next_obj (snd (audio_callback (Hw k) st s)) = Suc (next_obj s) \<and>
    submitted (snd (audio_callback (Hw k) st s)) = submitted s \<and>
    sessions (snd (audio_callback (Hw k) st s)) = sessions s \<and>
    current_text (snd (audio_callback (Hw k) st s)) = current_text s \<and>
    is_recording (snd (audio_callback (Hw k) st s)) = is_recording s \<and>
    transcription_thread (snd (audio_callback (Hw k) st s)) = transcription_thread s \<and>
    renders (snd (audio_callback (Hw k) st s)) = renders s \<and>
    mem (step (Callback k arr' st') (snd (audio_callback (Hw k) st s))) (Obj (next_obj s)) =
      mem (snd (audio_callback (Hw k) st s)) (Obj (next_obj s))"
proof -
  let ?s' = "snd (audio_callback (Hw k) st s)"
  have ok: "fst (audio_callback (Hw k) st s) = None"
    and q: "audio_queue ?s' = audio_queue s @ [Obj (next_obj s)]"
    and m: "mem ?s' (Obj (next_obj s)) =
      (if ndim (mem s (Hw k)) > 1 then column0 (mem s (Hw k)) else mem s (Hw k))"
    and n: "next_obj ?s' = Suc (next_obj s)"
    and r: "renders ?s' = renders s"
    using assms
    by (cases st; simp add: audio_callback_def np_copy_def queue_put_def print_def Let_def
        renders_def)+
  have later: "mem (step (Callback k arr' st') ?s') (Obj (next_obj s)) =
      mem ?s' (Obj (next_obj s))"
    by (cases st')
       (simp_all add: n audio_callback_def [of "Hw k" _ "_\<lparr>mem := _\<rparr>"] np_copy_def
          queue_put_def print_def Let_def)
  show ?thesis
    using ok q m n r later by (simp add: audio_callback_frame)
qed

text \<open>
  Claim C8 on a stereo buffer of two audio frames: the queue gets its left channel.
\<close>

theorem C8_callback_enqueues_mono_copy_witness:
  "ndim (mem stereo_delivered (Hw 0)) > 1 \<and> has_column0 (mem stereo_delivered (Hw 0)) \<and>
   fst (audio_callback (Hw 0) None stereo_delivered) = None \<and>
   queued (snd (audio_callback (Hw 0) None stereo_delivered)) = [Arr1 [1, 2]]"
proof -
  let ?c = "audio_callback (Hw 0) None stereo_delivered"
  have b: "mem stereo_delivered (Hw 0) = Arr2 [[1, 10], [2, 20]]"
    by (simp add: stereo_delivered_def)
  have h: "ndim (mem stereo_delivered (Hw 0)) > 1 \<longrightarrow> has_column0 (mem stereo_delivered (Hw 0))"
    unfolding b by simp
  have e: "audio_queue stereo_delivered = []" "next_obj stereo_delivered = 0"
    by (simp_all add: stereo_delivered_def session_started_def)
  note th = C8_callback_enqueues_mono_copy [OF h, of None "Arr1 []" None]
  have 1: "fst ?c = None"
    using th by blast
  have 2: "audio_queue (snd ?c) = [Obj 0]"
    using th unfolding e by simp
  have "mem (snd ?c) (Obj (next_obj stereo_delivered)) =
      (if ndim (mem stereo_delivered (Hw 0)) > 1 then column0 (mem stereo_delivered (Hw 0))
       else mem stereo_delivered (Hw 0))"
    using th by blast
  then have 3: "mem (snd ?c) (Obj 0) = Arr1 [1, 2]"
    unfolding e b by simp
  show ?thesis
    using 1 by (simp add: queued_def 2 3) (simp add: b)
qed

subsection \<open>C9: every way out of start\_recording runs the same shutdown\<close>

text \<open>
  Against claim C9 as it is stated. The program is started on a system without files. The worker enters its session, one
  buffer arrives, the recognizer's hypothesis for it is a single blank, and the
  operator presses Ctrl+C. \<open>start_recording\<close> returns normally with the flag cleared;
  the transcript is the blank, which is not the empty string, and no file exists.
\<close>

theorem C9_blank_transcript_not_persisted:
  "map_option fst (start_recording blank_heard constructed) = Some None \<and>
   map_option (\<lambda>r. is_recording (snd r)) (start_recording blank_heard constructed) =
     Some False \<and>
   map_option (\<lambda>r. current_text (snd r)) (start_recording blank_heard constructed) =
     Some [32] \<and>
   map_option (\<lambda>r. files (snd r)) (start_recording blank_heard constructed) =
     Some Map.empty"
proof -
  have e: "input_stream blank_heard = None" "interrupt blank_heard = Some KeyboardInterrupt"
    "before_open blank_heard = [Worker (Returns []) noon]"
    "sleeps blank_heard = [[Callback 0 (Arr2 [[0], [0]]) None],
                [Worker (Returns [32]) noon, Worker (Returns [32]) noon]]"
    "joining blank_heard = [Worker (Returns []) noon]"
    by (simp_all add: blank_heard_def)
  have c: "audio_queue constructed = []" "current_text constructed = []"
    "files constructed = Map.empty"
    by (simp_all add: constructed_def new_object_def boot_def print_def prints_def
        fresh_world_def)
  define L where "L = launch blank_heard constructed"
  have L: "transcription_thread L = Some LoopHead" "audio_queue L = []" "current_text L = []"
    unfolding L_def
    by (simp_all add: launch_def e Let_def started_step_Returns prints_def print_def c)
  define s8 where "s8 = listening blank_heard (L\<lparr>opens := Suc (opens L)\<rparr>)"
  have s8: "transcription_thread s8 = Some LoopHead" "audio_queue s8 = []"
    "current_text s8 = []" "is_recording s8" "stream_active s8"
    unfolding s8_def using L
    by (simp_all add: listening_frame) (simp add: L_def launch_frame)
  define sC where "sC = step (Callback 0 (Arr2 [[0], [0]]) None) s8"
  have wf: "ndim (Arr2 [[0 :: nat], [0]]) > 1 \<longrightarrow> has_column0 (Arr2 [[0 :: nat], [0]])"
    by simp
  note cb = callback_step [OF s8(5) wf, of 0 None, folded sC_def]
  have sC: "transcription_thread sC = Some LoopHead" "audio_queue sC = [Obj (next_obj s8)]"
    "current_text sC = []" "is_recording sC"
    using cb s8 by (simp_all add: sC_def step_frame del: step.simps)
  define sR where "sR = run (rounds [(Returns [32], noon)]) sC"
  have sR_eq: "sR = display_transcription noon
      (sC\<lparr>audio_queue := [], submitted := submitted sC @ [mem sC (Obj (next_obj s8))],
          current_text := [32]\<rparr>)"
    unfolding sR_def round_Returns [OF sC(1) sC(4) sC(2)] by (simp add: sC(3))
  have sR: "current_text sR = [32]" "transcription_thread sR = Some LoopHead"
    unfolding sR_eq using sC(1) by (simp_all add: display_transcription_def)
  have r: "run (concat (sleeps blank_heard)) s8 = sR"
    unfolding sR_def sC_def e by simp
  define s9 where "s9 = sR\<lparr>stream_active := False\<rparr>"
  have b: "recording_body blank_heard constructed = Some (Some KeyboardInterrupt, s9)"
    unfolding recording_body_interrupted [OF e(1,2)] 
    by (simp add: L_def [symmetric] s8_def [symmetric] r s9_def)
  note fr = recording_body_frame [OF b]
  define s10 where "s10 = snd (except_clauses (Some KeyboardInterrupt) s9)"
  have s10: "current_text s10 = [32]" "transcription_thread s10 = Some LoopHead"
    "files s10 = Map.empty"
    unfolding s10_def using sR fr c
    by (simp_all add: except_clauses_frame s9_def del: except_clauses.simps)
  let ?j = "join_thread [Worker (Returns []) noon] (s10\<lparr>is_recording := False\<rparr>)"
  have j: "?j = (s10\<lparr>is_recording := False\<rparr>)
      \<lparr>sessions := sessions s10 @ [Release], transcription_thread := Some Finished\<rparr>"
    by (subst join_exit) (simp_all add: s10)
  have jt: "current_text ?j = [32]"
    unfolding j by (simp add: s10)
  have blank: "\<not> has_text [32]"
    by (simp add: has_text_def isspace_def)
  let ?sf = "stop_recording (joining blank_heard) (t_name blank_heard) (t_head blank_heard) s10"
  have sf: "current_text ?sf = [32]" "files ?sf = Map.empty" "\<not> is_recording ?sf"
    unfolding e by (simp_all add: stop_recording_fields stop_recording_files jt blank s10)
  have "start_recording blank_heard constructed = Some (None, ?sf)"
    unfolding start_recording_eq [OF b] s10_def by simp
  then show ?thesis
    using sf by simp
qed

text \<open>
  Claim C9, as the code has it. Whatever ends the \<open>try\<close> body of \<open>start_recording\<close>
  (Ctrl+C, an exception while recording, the stream that cannot be opened), the
  \<open>finally\<close> clause runs \<open>stop_recording\<close> on the state the body left: the recording
  flag is cleared, the worker thread is joined, and the transcript is written if it
  has a character that is not white space. After Ctrl+C and after an \<open>Exception\<close>
  the only difference is the line printed before, and \<open>start_recording\<close> returns
  normally in both cases. The body is left, and so the shutdown runs, exactly when the
  stream cannot be opened or an exception arrives in the main thread.
\<close>

theorem C9_same_shutdown_on_every_exit:
  assumes "recording_body env s = Some (raised, s9)"
  shows
    "start_recording env s =
       Some (fst (except_clauses raised s9),
             stop_recording (joining env) (t_name env) (t_head env)
               (snd (except_clauses raised s9))) \<and>
     raised = (case input_stream env of Some e \<Rightarrow> Some e | None \<Rightarrow> interrupt env) \<and>
     except_clauses (Some KeyboardInterrupt) s9 =
       (None, print ([10, 10, 128721] @ str '' Recording stopped by user'') s9) \<and>
     except_clauses (Some (Exception m)) s9 =
       (None, print ([10, 10, 10060] @ str '' Error: '' @ m) s9) \<and>
     \<not> is_recording (stop_recording (joining env) (t_name env) (t_head env)
       (snd (except_clauses raised s9))) \<and>
     join_thread (joining env) ((snd (except_clauses raised s9))\<lparr>is_recording := False\<rparr>) =
       run (joining env) ((snd (except_clauses raised s9))\<lparr>is_recording := False\<rparr>) \<and>
     files (stop_recording (joining env) (t_name env) (t_head env)
         (snd (except_clauses raised s9))) =
       (if has_text (current_text
             (run (joining env) ((snd (except_clauses raised s9))\<lparr>is_recording := False\<rparr>)))
        then (files s)(transcript_name (t_name env) \<mapsto>
               transcript_header (t_head env) @
               current_text
                 (run (joining env) ((snd (except_clauses raised s9))\<lparr>is_recording := False\<rparr>)))
        else files s) \<and>
     (recording_body env s' = None) = (input_stream env = None \<and> interrupt env = None)"
proof -
  note fr = recording_body_frame [OF assms]
  let ?x = "(snd (except_clauses raised s9))\<lparr>is_recording := False\<rparr>"
  obtain pc where "transcription_thread ?x = Some pc"
    using fr by (auto simp: except_clauses_frame)
  then have j: "join_thread (joining env) ?x = run (joining env) ?x"
    by (simp add: join_thread_def)
  have f: "files (snd (except_clauses raised s9)) = files s"
    using fr by (simp add: except_clauses_frame)
  have 1: "files (stop_recording (joining env) (t_name env) (t_head env)
         (snd (except_clauses raised s9))) =
       (if has_text (current_text (run (joining env) ?x))
        then (files s)(transcript_name (t_name env) \<mapsto>
               transcript_header (t_head env) @ current_text (run (joining env) ?x))
        else files s)"
    unfolding stop_recording_files j f ..
  have 2: "raised = (case input_stream env of Some e \<Rightarrow> Some e | None \<Rightarrow> interrupt env)"
    using fr by blast
  have 3: "\<not> is_recording (stop_recording (joining env) (t_name env) (t_head env)
       (snd (except_clauses raised s9)))"
    by (simp add: stop_recording_fields)
  show ?thesis
    using start_recording_eq [OF assms] 1 2 3 j recording_body_cause [of env s']
    by simp
qed

text \<open>
  Claim C9 when the audio device cannot be opened: the same shutdown, and a normal
  return.
\<close>

theorem C9_same_shutdown_on_every_exit_witness:
  "recording_body device_unavailable constructed =
     Some (Some (Exception (str ''no input device'')),
           (launch device_unavailable constructed)
             \<lparr>opens := Suc (opens (launch device_unavailable constructed))\<rparr>) \<and>
   start_recording device_unavailable constructed =
     Some (None,
           stop_recording [] noon noon
             (print ([10, 10, 10060] @ str '' Error: '' @ str ''no input device'')
                ((launch device_unavailable constructed)
                   \<lparr>opens := Suc (opens (launch device_unavailable constructed))\<rparr>)))"
proof -
  have d: "input_stream device_unavailable = Some (Exception (str ''no input device''))"
    "joining device_unavailable = []" "t_name device_unavailable = noon"
    "t_head device_unavailable = noon"
    by (simp_all add: device_unavailable_def)
  note b = recording_body_open_fails [OF d(1), of constructed]
  show ?thesis
    using C9_same_shutdown_on_every_exit [OF b, of "[]" constructed] b
    unfolding d by simp
qed

subsection \<open>C10: full\_transcription stays empty\<close>

text \<open>
  Claim C10. The constructor sets \<open>full_transcription\<close> to the empty list. None of
  \<open>audio_callback\<close>, the steps of \<open>transcription_worker\<close>, \<open>display_transcription\<close>,
  \<open>stop_recording\<close> and \<open>start_recording\<close> changes it, so at the end of \<open>main\<close> it
  is still empty. None of them reads it either: started with any other value of the
  attribute, each does exactly the same and leaves that value in place; what is printed
  and what is written to the transcript file comes from \<open>current_text\<close> alone.
\<close>

theorem C10_full_transcription_untouched:
  "full_transcription (new_object name sr cd w) = [] \<and>
   init None name sr cd w =
     Inr (new_object name sr cd
            ((print (str ''Loading model: '' @ name) w)\<lparr>loads := Suc (loads w)\<rparr>)) \<and>
   full_transcription (snd (audio_callback a st s)) = full_transcription s \<and>
   full_transcription (transcription_worker_step oc now s) = full_transcription s \<and>
   full_transcription (display_transcription now s) = full_transcription s \<and>
   full_transcription (stop_recording evs tn th s) = full_transcription s \<and>
   map_option (\<lambda>r. full_transcription (snd r)) (start_recording env s) =
     map_option (\<lambda>r. full_transcription s) (start_recording env s) \<and>
   map_option full_transcription (final_state env w') =
     map_option (\<lambda>s. []) (final_state env w') \<and>
   audio_callback a st (s\<lparr>full_transcription := v\<rparr>) =
     (fst (audio_callback a st s), (snd (audio_callback a st s))\<lparr>full_transcription := v\<rparr>) \<and>
   transcription_worker_step oc now (s\<lparr>full_transcription := v\<rparr>) =
     (transcription_worker_step oc now s)\<lparr>full_transcription := v\<rparr> \<and>
   display_transcription now (s\<lparr>full_transcription := v\<rparr>) =
     (display_transcription now s)\<lparr>full_transcription := v\<rparr> \<and>
   stop_recording evs tn th (s\<lparr>full_transcription := v\<rparr>) =
     (stop_recording evs tn th s)\<lparr>full_transcription := v\<rparr> \<and>
   start_recording env (s\<lparr>full_transcription := v\<rparr>) =
     map_option (\<lambda>r. (fst r, (snd r)\<lparr>full_transcription := v\<rparr>)) (start_recording env s)"
proof -
  have 1: "full_transcription (new_object name sr cd w) = []"
    by (simp add: new_object_def)
  have 2: "init None name sr cd w =
     Inr (new_object name sr cd
            ((print (str ''Loading model: '' @ name) w)\<lparr>loads := Suc (loads w)\<rparr>))"
    by (simp add: init_def Let_def print_def)
  have 3: "full_transcription (display_transcription now s) = full_transcription s"
    by (simp add: display_transcription_def)
  have 4: "map_option (\<lambda>r. full_transcription (snd r)) (start_recording env s) =
     map_option (\<lambda>r. full_transcription s) (start_recording env s)"
  proof (cases "start_recording env s")
    case None
    then show ?thesis by simp
  next
    case (Some r)
    then show ?thesis
      using start_recording_frame [of env s "fst r" "snd r"] by simp
  qed
  have 5: "map_option full_transcription (final_state env w') =
     map_option (\<lambda>s. []) (final_state env w')"
  proof (cases "final_state env w'")
    case None
    then show ?thesis by simp
  next
    case (Some s')
    then show ?thesis
      using final_state_full [OF Some] by simp
  qed
  show ?thesis
    using 1 2 3 4 5
    by (simp only: audio_callback_frame worker_step_frame stop_recording_fields
        audio_callback_indep worker_step_indep display_transcription_indep
        stop_recording_indep start_recording_indep simp_thms)
qed

text \<open>
  Claim C10 on the run that is stopped with Ctrl+C: at its end the list is empty.
\<close>

theorem C10_full_transcription_untouched_witness:
  "map_option full_transcription (final_state blank_heard (fresh_world Map.empty)) = Some []"
proof -
  have h: "query_devices blank_heard = Inr (str ''0 Built-in Microphone'')"
    "from_pretrained blank_heard = None"
    "input_stream blank_heard = Some KeyboardInterrupt \<or>
      (input_stream blank_heard = None \<and> interrupt blank_heard = Some KeyboardInterrupt)"
    by (simp_all add: blank_heard_def)
  obtain s where "main blank_heard (fresh_world Map.empty) = Some (None, Inr s)"
    using main_exit_started [OF h, of "fresh_world Map.empty"] by auto
  then have fs: "final_state blank_heard (fresh_world Map.empty) = Some s"
    by (simp add: final_state_def)
  have "map_option full_transcription (final_state blank_heard (fresh_world Map.empty)) =
      map_option (\<lambda>s. []) (final_state blank_heard (fresh_world Map.empty))"
    using C10_full_transcription_untouched [of "[]" 0 one_second "fresh_world Map.empty"
        "Hw 0" None constructed "Returns []" noon "[]" noon noon blank_heard
        "fresh_world Map.empty" "[]"]
    by (elim conjE)
  then show ?thesis
    unfolding fs by simp
qed

end
